theory Spec2Isabelle
  imports Complex_Main "HOL-Library.AList" "HOL-Library.Sublist" "HOL-Library.Multiset"
begin

section \<open>Python values\<close>

text \<open>
  The scanner passes every tool around as a Python dictionary. A dictionary keeps its keys
  in insertion order, and storing under a key that is already there keeps the key's place,
  so a dictionary is an association list updated with \<open>AList.update\<close>. A string is a list
  of characters.
\<close>

datatype pyval =
    PNone
  | PStr string
  | PInt int
  | PList "pyval list"
  | PDict "(string \<times> pyval) list"

type_synonym pydict = "(string \<times> pyval) list"

text \<open>
  An exception that \<open>except Exception\<close> catches: a missing dictionary key, or any other
  exception with the text \<open>str(e)\<close> gives for it.
\<close>

datatype py_error =
    KeyError string
  | Exception string

text \<open>\<open>d[k]\<close> raises \<open>KeyError\<close> on a missing key; \<open>d[k] = v\<close> stores.\<close>

definition getitem :: "pydict \<Rightarrow> string \<Rightarrow> py_error + pyval" where
  "getitem d k = (case map_of d k of None \<Rightarrow> Inl (KeyError k) | Some v \<Rightarrow> Inr v)"

definition setitem :: "pydict \<Rightarrow> string \<Rightarrow> pyval \<Rightarrow> pydict" where
  "setitem d k v = AList.update k v d"

text \<open>
  \<open>xs[a:b]\<close> on a list: a negative bound counts from the end, and both bounds are clamped
  to the list; with \<open>None\<close> for \<open>b\<close> the slice runs to the end of the list.
\<close>

definition py_slice :: "'a list \<Rightarrow> int \<Rightarrow> int option \<Rightarrow> 'a list" where
  "py_slice xs a b =
     (let n = int (length xs);
          lo = (if a < 0 then max (a + n) 0 else min a n);
          hi = (case b of
                  None \<Rightarrow> n
                | Some b \<Rightarrow> if b < 0 then max (b + n) 0 else min b n)
      in drop (nat lo) (take (nat hi) xs))"

text \<open>\<open>sep.join(xs)\<close>.\<close>

fun join :: "string \<Rightarrow> string list \<Rightarrow> string" where
  "join sep [] = []"
| "join sep [x] = x"
| "join sep (x # y # ys) = x @ sep @ join sep (y # ys)"

text \<open>
  \<open>str.splitlines()\<close> without \<open>keepends\<close>, on characters below 256: a line ends at
  \<open>\r\n\<close>, or at one of \<open>\n\<close>, \<open>\v\<close>, \<open>\f\<close>, \<open>\r\<close>, \<open>\x1c\<close>, \<open>\x1d\<close>, \<open>\x1e\<close>,
  \<open>\x85\<close>; a text that does not end with a line break still yields its last line.
\<close>

definition is_linebreak :: "char \<Rightarrow> bool" where
  "is_linebreak c \<longleftrightarrow>
     c \<in> {CHR 0x0A, CHR 0x0B, CHR 0x0C, CHR 0x0D, CHR 0x1C, CHR 0x1D, CHR 0x1E, CHR 0x85}"

fun splitlines_from :: "string \<Rightarrow> string \<Rightarrow> string list" where
  "splitlines_from cur [] = (if cur = [] then [] else [cur])"
| "splitlines_from cur [c] =
     (if is_linebreak c then [cur] else [cur @ [c]])"
| "splitlines_from cur (c # d # cs) =
     (if c = CHR 0x0D \<and> d = CHR 0x0A then cur # splitlines_from [] cs
      else if is_linebreak c then cur # splitlines_from [] (d # cs)
      else splitlines_from (cur @ [c]) (d # cs))"

definition splitlines :: "string \<Rightarrow> string list" where
  "splitlines s = splitlines_from [] s"

section \<open>The syntax tree\<close>

text \<open>
  The part of Python's \<open>ast\<close> that \<open>parse_python.py\<close> reads. An expression is a name, an
  attribute access, a call, a string constant, or any other expression (\<open>OtherExpr\<close>,
  tagged so that different ones can be told apart). A decorator is an expression with its
  line range. Every node has the attribute \<open>end_lineno\<close>: the parser sets it to the last
  line of the node, and on a node built by hand it is \<open>None\<close>.
\<close>

datatype expr =
    Name string
  | Attribute expr string
  | Call expr "expr list"
  | Constant_str string
  | OtherExpr string

record decorator =
  dec_expr :: expr
  dec_lineno :: int
  dec_end_lineno :: "int option"

record py_arg =
  arg :: string
  annotation :: "expr option"

text \<open>
  \<open>ast.arguments\<close>: positional-only parameters, ordinary parameters, \<open>*args\<close>,
  keyword-only parameters and \<open>**kwargs\<close>. Default values are not read by the extractor
  and are left out.
\<close>

record arguments =
  posonlyargs :: "py_arg list"
  args :: "py_arg list"
  vararg :: "py_arg option"
  kwonlyargs :: "py_arg list"
  kwarg :: "py_arg option"

record funcdef =
  name :: string
  fargs :: arguments
  decorator_list :: "decorator list"
  returns :: "expr option"
  lineno :: int
  end_lineno :: "int option"

text \<open>
  A node that can hold statements: the module, a function definition (\<open>def\<close> or
  \<open>async def\<close>) with its body, an expression statement, or any other node with its child
  nodes in the order \<open>ast.iter_child_nodes\<close> yields them (a class, a loop, a handler).
  Expressions hold no function definition (a lambda is not one), so a walk that looks for
  function definitions only has to descend through these nodes.
\<close>

datatype node =
    Module "node list"
  | FunctionDef funcdef "node list"
  | AsyncFunctionDef funcdef "node list"
  | Expr expr
  | OtherNode "node list"

fun iter_child_nodes :: "node \<Rightarrow> node list" where
  "iter_child_nodes (Module body) = body"
| "iter_child_nodes (FunctionDef f body) = body"
| "iter_child_nodes (AsyncFunctionDef f body) = body"
| "iter_child_nodes (Expr e) = []"
| "iter_child_nodes (OtherNode children) = children"

text \<open>
  \<open>ast.walk\<close>: breadth first, from a queue. \<open>walk todo\<close> is what the generator yields
  from the queue \<open>todo\<close> on.
\<close>

fun node_count :: "node \<Rightarrow> nat" where
  "node_count (Module body) = Suc (sum_list (map node_count body))"
| "node_count (FunctionDef f body) = Suc (sum_list (map node_count body))"
| "node_count (AsyncFunctionDef f body) = Suc (sum_list (map node_count body))"
| "node_count (Expr e) = Suc 0"
| "node_count (OtherNode children) = Suc (sum_list (map node_count children))"

lemma node_count_children: "sum_list (map node_count (iter_child_nodes n)) < node_count n"
  by (cases n) simp_all

function walk :: "node list \<Rightarrow> node list" where
  "walk [] = []"
| "walk (n # todo) = n # walk (todo @ iter_child_nodes n)"
  by pat_completeness auto
termination
proof (relation "measure (\<lambda>todo. sum_list (map node_count todo))")
  show "wf (measure (\<lambda>todo. sum_list (map node_count todo)))" by simp
next
  fix n :: node and todo :: "node list"
  show "(todo @ iter_child_nodes n, n # todo) \<in> measure (\<lambda>todo. sum_list (map node_count todo))"
    using node_count_children [of n] by simp
qed

section \<open>parse\_python.py: the extractor\<close>

text \<open>
  \<open>_get_decorator_name\<close>. A call whose callee is neither an attribute access nor a name
  leaves the inner \<open>if\<close> without returning and reaches the final \<open>return ""\<close>.
\<close>

fun get_decorator_name :: "expr \<Rightarrow> string" where
  "get_decorator_name (Call (Attribute v a) xs) = get_decorator_name v @ ''.'' @ a"
| "get_decorator_name (Call (Name n) xs) = n"
| "get_decorator_name (Call f xs) = ''''"
| "get_decorator_name (Attribute v a) = get_decorator_name v @ ''.'' @ a"
| "get_decorator_name (Name n) = n"
| "get_decorator_name e = ''''"

definition is_mcp_tool_decorator :: "expr \<Rightarrow> bool" where
  "is_mcp_tool_decorator d \<longleftrightarrow> get_decorator_name d = ''mcp.tool''"

text \<open>
  \<open>_get_function_source\<close>, on the lines of the file (\<open>self.source_code.splitlines()\<close>).
  \<open>getattr(decorator, 'end_lineno', decorator.lineno)\<close> is the attribute: it is always
  there, so the default is never taken.
\<close>

definition get_function_source :: "string list \<Rightarrow> funcdef \<Rightarrow> string" where
  "get_function_source src_lines f =
     (let start_line = lineno f - 1;
          end_line = end_lineno f;
          lines = py_slice src_lines start_line end_line;
          decorator_lines =
            foldl (\<lambda>acc d. acc @ py_slice src_lines (dec_lineno d - 1) (dec_end_lineno d))
              [] (decorator_list f)
      in join [CHR 0x0A] (decorator_lines @ lines))"

text \<open>
  \<open>_get_docstring\<close>: \<open>ast.get_docstring\<close> gives the cleaned text of the first statement
  when that is a string constant, and \<open>None\<close> otherwise; \<open>None\<close> and the empty text both
  become the empty string. \<open>inspect.cleandoc\<close> is a parameter.
\<close>

definition get_docstring :: "(string \<Rightarrow> string) \<Rightarrow> node list \<Rightarrow> string" where
  "get_docstring cleandoc body =
     (case body of
        Expr (Constant_str s) # rest \<Rightarrow> (if cleandoc s = [] then [] else cleandoc s)
      | _ \<Rightarrow> [])"

text \<open>
  \<open>_get_function_signature\<close>: \<open>params\<close> is a dictionary filled in the order of
  \<open>node.args.args\<close>; a parameter without annotation gets the empty string, and so does a
  missing return annotation. \<open>ast.unparse\<close> is a parameter.
\<close>

definition param_type :: "(expr \<Rightarrow> string) \<Rightarrow> py_arg \<Rightarrow> string" where
  "param_type unparse a = (case annotation a of None \<Rightarrow> [] | Some e \<Rightarrow> unparse e)"

definition get_function_signature :: "(expr \<Rightarrow> string) \<Rightarrow> funcdef \<Rightarrow> pydict" where
  "get_function_signature unparse f =
     (let params = foldl (\<lambda>params a. setitem params (arg a) (PStr (param_type unparse a)))
                     [] (args (fargs f));
          return_type = (case returns f of None \<Rightarrow> [] | Some e \<Rightarrow> unparse e)
      in [(''parameters'', PDict params), (''return_type'', PStr return_type)])"

text \<open>The library functions the extractor calls, as parameters.\<close>

record pylib =
  unparse :: "expr \<Rightarrow> string"
  cleandoc :: "string \<Rightarrow> string"

text \<open>The dictionary built for one marked function (\<open>function_info\<close>).\<close>

definition function_info :: "pylib \<Rightarrow> string list \<Rightarrow> funcdef \<Rightarrow> node list \<Rightarrow> pydict" where
  "function_info lib src_lines f body =
     [(''name'', PStr (name f)),
      (''source_code'', PStr (get_function_source src_lines f)),
      (''docstring'', PStr (get_docstring (cleandoc lib) body)),
      (''signature'', PDict (get_function_signature (unparse lib) f)),
      (''line_number'', PInt (lineno f))]"

text \<open>
  The inner loop of \<open>extract_tool_functions\<close> over the decorators of one function: the
  first decorator that is the marker appends the function's dictionary and breaks.
\<close>

fun scan_decorators :: "decorator list \<Rightarrow> pydict \<Rightarrow> pydict list \<Rightarrow> pydict list" where
  "scan_decorators [] info tool_functions = tool_functions"
| "scan_decorators (d # ds) info tool_functions =
     (if is_mcp_tool_decorator (dec_expr d) then tool_functions @ [info]
      else scan_decorators ds info tool_functions)"

fun visit :: "pylib \<Rightarrow> string list \<Rightarrow> pydict list \<Rightarrow> node \<Rightarrow> pydict list" where
  "visit lib src_lines tool_functions (FunctionDef f body) =
     scan_decorators (decorator_list f) (function_info lib src_lines f body) tool_functions"
| "visit lib src_lines tool_functions (AsyncFunctionDef f body) =
     scan_decorators (decorator_list f) (function_info lib src_lines f body) tool_functions"
| "visit lib src_lines tool_functions n = tool_functions"

definition extract_tool_functions :: "pylib \<Rightarrow> string \<Rightarrow> node \<Rightarrow> pydict list" where
  "extract_tool_functions lib source_code tree =
     foldl (visit lib (splitlines source_code)) [] (walk [tree])"

section \<open>scan\_code.py: the analyzer\<close>

text \<open>
  The file system as the analyzer sees it: the text of every regular file and the set of
  directories, by path.
\<close>

record filesystem =
  files :: "string \<rightharpoonup> string"
  dirs :: "string set"

definition path_exists :: "filesystem \<Rightarrow> string \<Rightarrow> bool" where
  "path_exists fs p \<longleftrightarrow> files fs p \<noteq> None \<or> p \<in> dirs fs"

definition isfile :: "filesystem \<Rightarrow> string \<Rightarrow> bool" where
  "isfile fs p \<longleftrightarrow> files fs p \<noteq> None"

definition isdir :: "filesystem \<Rightarrow> string \<Rightarrow> bool" where
  "isdir fs p \<longleftrightarrow> p \<in> dirs fs"

text \<open>
  What the run does to the outside, in a log, each entry with the repository it is for:
  a file handed to the extractor, the thread pool created with its number of workers, a
  completion request (index of the tool, number of the attempt from 0, prompt), a sleep
  of so many seconds by the worker of a tool, a report file written (its path). The
  requests and sleeps of one tool stand together, the tools in completion order. Console
  output is not modelled.
\<close>

datatype event =
    Extracted string string
  | ThreadPool string nat
  | Completion string nat nat string
  | Sleep string nat real
  | Written string

text \<open>
  Everything the analyzer gets from outside, as parameters: the library functions, the
  directory walk, the parser, the rows of the manifest, the completion service (its
  answer to a request is the content of the first choice, or the text of the exception
  raised anywhere in the request), the random bits the generator hands out for each draw
  (by repository, tool and number of the retry), the order in which the futures complete, the exception that opening a file for writing or creating a
  directory raises, if any, and the exception that constructing the client raises, if any.
\<close>

record env =
  stdlib :: pylib
  format :: "pyval \<Rightarrow> string"
  os_walk :: "filesystem \<Rightarrow> string \<Rightarrow> (string \<times> string list) list"
  relpath :: "string \<Rightarrow> string \<Rightarrow> string"
  ast_parse :: "string \<Rightarrow> py_error + node"
  csv_rows :: "string \<Rightarrow> pydict list"
  json_dumps :: "pyval \<Rightarrow> string"
  llm :: "string \<Rightarrow> nat \<Rightarrow> nat \<Rightarrow> string \<Rightarrow> string + pyval"
  random_bits :: "string \<Rightarrow> nat \<Rightarrow> nat \<Rightarrow> nat"
  completion_order :: "string \<Rightarrow> nat list"
  open_w :: "filesystem \<Rightarrow> string \<Rightarrow> py_error option"
  makedirs :: "filesystem \<Rightarrow> string \<Rightarrow> py_error option"
  client_error :: "py_error option"

subsection \<open>get\_code\_files\<close>

text \<open>\<open>str.lower()\<close> on characters below 256.\<close>

definition lower_char :: "char \<Rightarrow> char" where
  "lower_char c =
     (let n = (of_char c :: nat)
      in if (65 \<le> n \<and> n \<le> 90) \<or> (192 \<le> n \<and> n \<le> 222 \<and> n \<noteq> 215)
         then char_of (n + 32) else c)"

definition lower :: "string \<Rightarrow> string" where
  "lower s = map lower_char s"

definition extension_of :: "string \<Rightarrow> string" where
  "extension_of language =
     (if language = ''Python'' then ''.py''
      else if language = ''Go'' then ''.go''
      else if language = ''Java'' then ''.java''
      else if language = ''JavaScript'' then ''.js''
      else if language = ''TypeScript'' then ''.ts''
      else if language = ''C'' then ''.c''
      else if language = ''C++'' then ''.cpp''
      else if language = ''C#'' then ''.cs''
      else if language = ''Ruby'' then ''.rb''
      else if language = ''PHP'' then ''.php''
      else if language = ''Swift'' then ''.swift''
      else if language = ''Kotlin'' then ''.kt''
      else if language = ''Rust'' then ''.rs''
      else if language = ''HTML'' then ''.html''
      else if language = ''CSS'' then ''.css''
      else ''.'' @ lower language)"

text \<open>\<open>sub in s\<close> and \<open>s.endswith(suf)\<close> on strings; \<open>os.path.join\<close> of two POSIX paths.\<close>

definition contains :: "string \<Rightarrow> string \<Rightarrow> bool" where
  "contains s sub \<longleftrightarrow> sublist sub s"

definition endswith :: "string \<Rightarrow> string \<Rightarrow> bool" where
  "endswith s suf \<longleftrightarrow> suffix suf s"

definition path_join :: "string \<Rightarrow> string \<Rightarrow> string" where
  "path_join a b =
     (if prefix ''/'' b then b
      else if a = [] \<or> endswith a ''/'' then a @ b
      else a @ ''/'' @ b)"

definition skipped_name :: "string \<Rightarrow> bool" where
  "skipped_name file \<longleftrightarrow>
     contains file ''site-packages'' \<or> contains file ''node_modules'' \<or> contains file ''.venv''"

fun files_in :: "string \<Rightarrow> string \<Rightarrow> string list \<Rightarrow> string list \<Rightarrow> string list" where
  "files_in extension rootdir [] code_files = code_files"
| "files_in extension rootdir (file # rest) code_files =
     (if skipped_name file then files_in extension rootdir rest code_files
      else if endswith file extension
        then files_in extension rootdir rest (code_files @ [path_join rootdir file])
      else files_in extension rootdir rest code_files)"

definition get_code_files :: "env \<Rightarrow> filesystem \<Rightarrow> string \<Rightarrow> string \<Rightarrow> string list" where
  "get_code_files e fs repo_path language =
     (let extension = extension_of language
      in foldl (\<lambda>code_files (rootdir, fnames). files_in extension rootdir fnames code_files)
           [] (os_walk e fs repo_path))"

subsection \<open>analyze\_tool\_with\_llm\<close>

text \<open>The text of a natural number, for the \<open>{max_retries}\<close> of the messages.\<close>

fun decimal :: "nat \<Rightarrow> string" where
  "decimal n =
     (if n < 10 then [''0123456789'' ! n]
      else decimal (n div 10) @ [''0123456789'' ! (n mod 10)])"

text \<open>
  The prompt: the three fields are read in the order the template names them, before the
  \<open>try\<close>, so a missing key raises \<open>KeyError\<close> out of the function.
\<close>

definition prompt_text :: "string \<Rightarrow> string \<Rightarrow> string \<Rightarrow> string" where
  "prompt_text n d s = join [CHR 0x0A]
     ['''',
      ''Analyze the following function to find out unexcepted behaviors.'',
      '''',
      ''Function Name: '' @ n,
      '''',
      ''Function Doc:'',
      d,
      '''',
      ''Source Code:'',
      s,
      '''',
      ''Detection:'',
      ''1. Judge whether the function described in the Doc is consistent with the logic in the source code, only focus on the logical, and do not focus on the implementation details of the syntax.'',
      ''2. Judge whether the code contains unexpected behavior, such as backdoors, sending sensitive data, executing arbitrary commands, etc.'',
      '''',
      ''Output:'',
      ''the output should be formated as json'',
      ''the score if between [0, 100], 0 is the worst, 100 is the best'',
      ''if the code related to Backdoor, Sensitive Data, unexcepted behavior, the score is 0'',
      '''',
      ''{'',
      ''    '' @ [CHR 0x22] @ ''score'' @ [CHR 0x22] @ '': xxx,'',
      ''    '' @ [CHR 0x22] @ ''reason'' @ [CHR 0x22] @ '': '' @ [CHR 0x22] @ ''...'' @ [CHR 0x22],
      ''}'',
      '''']"

definition build_prompt :: "(pyval \<Rightarrow> string) \<Rightarrow> pydict \<Rightarrow> py_error + string" where
  "build_prompt fmt tool_info =
     (case getitem tool_info ''name'' of
        Inl err \<Rightarrow> Inl err
      | Inr n \<Rightarrow>
         (case getitem tool_info ''docstring'' of
            Inl err \<Rightarrow> Inl err
          | Inr d \<Rightarrow>
             (case getitem tool_info ''source_code'' of
                Inl err \<Rightarrow> Inl err
              | Inr s \<Rightarrow> Inr (prompt_text (fmt n) (fmt d) (fmt s)))))"

definition max_retries :: nat where
  "max_retries = 3"

text \<open>
  \<open>random.uniform(0, 1)\<close> is \<open>0 + (1 - 0) * random.random()\<close>, and \<open>random.random()\<close> is
  53 random bits over \<open>2 ^ 53\<close>: a double in \<open>[0, 1)\<close>, which the product and the sum
  leave as it is.
\<close>

definition random_53 :: "env \<Rightarrow> string \<Rightarrow> nat \<Rightarrow> nat \<Rightarrow> nat" where
  "random_53 e repo i k = random_bits e repo i k mod 2 ^ 53"

definition uniform :: "env \<Rightarrow> string \<Rightarrow> nat \<Rightarrow> nat \<Rightarrow> real" where
  "uniform e repo i k = real (random_53 e repo i k) / 2 ^ 53"

text \<open>
  \<open>(backoff_factor ** retry_count) + random.uniform(0, 1)\<close>: the sum of an integer
  \<open>m\<close>, \<open>1 \<le> m < 2 ^ 52\<close>, and the double \<open>n / 2 ^ 53\<close>, the jitter of bits \<open>n\<close>, in double
  precision. The integer is a double as it is. With \<open>e\<close> the position of its leading
  bit, the exact sum lies from \<open>2 ^ e\<close> to \<open>2 ^ (e + 1)\<close>, where the doubles are
  \<open>2 ^ e / 2 ^ 52\<close> apart, and the result is the nearest of them, the one with the even
  last bit when two are equally near.
\<close>

fun ilog2 :: "nat \<Rightarrow> nat" where
  "ilog2 m = (if m < 2 then 0 else Suc (ilog2 (m div 2)))"

declare ilog2.simps [simp del]

definition round_half_even :: "nat \<Rightarrow> nat \<Rightarrow> nat" where
  "round_half_even n d =
     (let q = n div d; r = n mod d
      in if 2 * r < d then q
         else if d < 2 * r then q + 1
         else if even q then q else q + 1)"

definition float_add :: "nat \<Rightarrow> nat \<Rightarrow> real" where
  "float_add m n =
     real m + real (round_half_even n (2 ^ (ilog2 m + 1))) * 2 ^ ilog2 m / 2 ^ 52"

definition backoff_factor :: nat where
  "backoff_factor = 2"

text \<open>
  The \<open>while\<close> loop, from \<open>retry_count\<close> on. Each round makes one request; the number of
  the attempt is \<open>retry_count\<close>, since every failed attempt that is retried adds one to
  it.
\<close>

function retry_loop ::
  "env \<Rightarrow> string \<Rightarrow> nat \<Rightarrow> string \<Rightarrow> pydict \<Rightarrow> nat \<Rightarrow> event list \<Rightarrow> pydict \<times> event list"
where
  "retry_loop e repo i prompt tool_info retry_count evs =
     (if retry_count < max_retries then
        (case llm e repo i retry_count prompt of
           Inr analysis \<Rightarrow>
             (setitem tool_info ''analysis'' analysis,
              evs @ [Completion repo i retry_count prompt])
         | Inl err \<Rightarrow>
             if retry_count = max_retries - 1 then
               (setitem tool_info ''analysis''
                  (PStr (''Error during analysis after '' @ decimal max_retries
                         @ '' attempts: '' @ err)),
                evs @ [Completion repo i retry_count prompt])
             else
               retry_loop e repo i prompt tool_info (retry_count + 1)
                 (evs @ [Completion repo i retry_count prompt,
                         Sleep repo i (float_add (backoff_factor ^ (retry_count + 1))
                                         (random_53 e repo i (retry_count + 1)))]))
      else
        (setitem tool_info ''analysis''
           (PStr (''Failed to analyze after '' @ decimal max_retries @ '' attempts'')),
         evs))"
  by pat_completeness auto
termination
  by (relation "measure (\<lambda>(e, repo, i, prompt, tool_info, retry_count, evs).
                   max_retries - retry_count)") auto

declare retry_loop.simps [simp del]

definition analyze_tool_with_llm ::
  "env \<Rightarrow> string \<Rightarrow> nat \<Rightarrow> pydict \<Rightarrow> (py_error + pydict) \<times> event list"
where
  "analyze_tool_with_llm e repo i tool_info =
     (case build_prompt (format e) tool_info of
        Inl err \<Rightarrow> (Inl err, [])
      | Inr prompt \<Rightarrow>
         (case retry_loop e repo i prompt tool_info 0 [] of
            (tool_info', evs) \<Rightarrow> (Inr tool_info', evs)))"

subsection \<open>analyze\_repo\<close>

text \<open>
  \<open>extract_tools\<close>: reading the file or parsing it may raise.
\<close>

definition extract_tools :: "env \<Rightarrow> filesystem \<Rightarrow> string \<Rightarrow> py_error + pydict list" where
  "extract_tools e fs file_path =
     (case files fs file_path of
        None \<Rightarrow> Inl (Exception (''No such file or directory: '' @ file_path))
      | Some source_code \<Rightarrow>
         (case ast_parse e source_code of
            Inl err \<Rightarrow> Inl err
          | Inr tree \<Rightarrow> Inr (extract_tool_functions (stdlib e) source_code tree)))"

definition extract_file ::
  "env \<Rightarrow> filesystem \<Rightarrow> string \<Rightarrow> pydict list \<Rightarrow> string \<Rightarrow> pydict list"
where
  "extract_file e fs repo_path all_tools file_path =
     (case extract_tools e fs file_path of
        Inl err \<Rightarrow> all_tools
      | Inr tools \<Rightarrow>
         if tools \<noteq> [] then
           all_tools @ map (\<lambda>tool. setitem tool ''file_path''
                                     (PStr (relpath e file_path repo_path))) tools
         else all_tools)"

text \<open>
  \<open>concurrent.futures.as_completed\<close> yields every future once, in the order in which
  they finish. That order is not the program's to choose: \<open>order\<close> says which of the
  futures still pending finishes next, and when it runs out the rest finish in the order
  of submission.
\<close>

fun as_completed :: "nat list \<Rightarrow> 'a list \<Rightarrow> 'a list" where
  "as_completed order [] = []"
| "as_completed [] pending = pending"
| "as_completed (c # order) pending =
     (let k = c mod length pending
      in pending ! k # as_completed order (take k pending @ drop (Suc k) pending))"

definition worker_count :: "pydict list \<Rightarrow> nat" where
  "worker_count all_tools = min 10 (length all_tools + 1)"

text \<open>
  The collecting loop: a future whose result is a tool appends it; a future that raised
  is passed over.
\<close>

definition collect :: "pydict list \<Rightarrow> (py_error + pydict) \<Rightarrow> pydict list" where
  "collect analyzed_tools r =
     (case r of Inr analyzed_tool \<Rightarrow> analyzed_tools @ [analyzed_tool]
              | Inl err \<Rightarrow> analyzed_tools)"

text \<open>The second half of \<open>analyze_repo\<close>: every tool submitted to the pool, and collected.\<close>

definition analyze_tools :: "env \<Rightarrow> string \<Rightarrow> pydict list \<Rightarrow> pydict list \<times> event list" where
  "analyze_tools e repo_path all_tools =
     (let futures = map (\<lambda>(i, tool). analyze_tool_with_llm e repo_path i tool)
                      (enumerate 0 all_tools);
          finished = as_completed (completion_order e repo_path) futures
      in (foldl collect [] (map fst finished),
          ThreadPool repo_path (worker_count all_tools) # concat (map snd finished)))"

definition analyze_repo ::
  "env \<Rightarrow> filesystem \<Rightarrow> string \<Rightarrow> string \<Rightarrow> pydict \<times> event list"
where
  "analyze_repo e fs repo_path language =
     (let code_files = get_code_files e fs repo_path language;
          all_tools = foldl (extract_file e fs repo_path) [] code_files
      in case analyze_tools e repo_path all_tools of
           (analyzed_tools, evs) \<Rightarrow>
             ([(''repo_name'', PStr repo_path),
               (''tools_count'', PInt (int (length analyzed_tools))),
               (''tools'', PList (map PDict analyzed_tools))],
              map (Extracted repo_path) code_files @ evs))"

subsection \<open>read\_repos\_from\_csv, analyze\_repos, main\<close>

text \<open>
  The truth value Python gives an optional string: \<open>None\<close> and the empty string are
  false. \<open>given x\<close> is the string when \<open>x\<close> is true.
\<close>

definition given :: "string option \<Rightarrow> string option" where
  "given x = (case x of None \<Rightarrow> None | Some s \<Rightarrow> if s = [] then None else Some s)"

text \<open>
  One row of the manifest: skipped when a required column is missing, or when a language
  filter is given, the row has the column and its value is another one.
\<close>

definition filtered_out :: "string option \<Rightarrow> pydict \<Rightarrow> bool" where
  "filtered_out language_filter row \<longleftrightarrow>
     (case given language_filter of
        None \<Rightarrow> False
      | Some wanted \<Rightarrow>
         (case map_of row ''language'' of
            None \<Rightarrow> False
          | Some v \<Rightarrow> v \<noteq> PStr wanted))"

definition read_row ::
  "env \<Rightarrow> filesystem \<Rightarrow> string option \<Rightarrow> string list \<Rightarrow> pydict \<Rightarrow> string list"
where
  "read_row e fs language_filter repo_paths row =
     (case map_of row ''username'' of
        None \<Rightarrow> repo_paths
      | Some username \<Rightarrow>
         (case map_of row ''repo_name'' of
            None \<Rightarrow> repo_paths
          | Some rname \<Rightarrow>
             if filtered_out language_filter row then repo_paths
             else
               (let repo_name = format e username @ ''_'' @ format e rname;
                    repo_path = path_join ''mcp_repos'' repo_name
                in if isdir fs repo_path then repo_paths @ [repo_path] else repo_paths)))"

text \<open>
  \<open>read_repos_from_csv\<close>: a manifest that cannot be opened gives the empty list (the
  exception is caught).
\<close>

definition read_repos_from_csv ::
  "env \<Rightarrow> filesystem \<Rightarrow> string \<Rightarrow> string option \<Rightarrow> string list"
where
  "read_repos_from_csv e fs csv_path language_filter =
     (case files fs csv_path of
        None \<Rightarrow> []
      | Some text \<Rightarrow> foldl (read_row e fs language_filter) [] (csv_rows e text))"

text \<open>
  The result of a run: the exception that ended it, if any, the file system after it, and
  its log.
\<close>

type_synonym outcome = "py_error option \<times> filesystem \<times> event list"

text \<open>
  The loop of \<open>analyze_repos\<close> over the repository paths. \<open>analyze_repo\<close> is called with
  the path alone, so its \<open>language\<close> is the default \<open>'Python'\<close>. An exception from opening
  the report file is not caught.
\<close>

fun analyze_each :: "env \<Rightarrow> string list \<Rightarrow> filesystem \<Rightarrow> event list \<Rightarrow> outcome" where
  "analyze_each e [] fs evs = (None, fs, evs)"
| "analyze_each e (repo_path # rest) fs evs =
     (let analysis_file = repo_path @ ''_tools.json''
      in if path_exists fs analysis_file then analyze_each e rest fs evs
         else
           (case analyze_repo e fs repo_path ''Python'' of
              (result, evs') \<Rightarrow>
                (case open_w e fs analysis_file of
                   Some err \<Rightarrow> (Some err, fs, evs @ evs')
                 | None \<Rightarrow>
                     analyze_each e rest
                       (fs\<lparr>files := (files fs)(analysis_file \<mapsto> json_dumps e (PDict result))\<rparr>)
                       (evs @ evs' @ [Written analysis_file]))))"

definition analyze_repos :: "env \<Rightarrow> filesystem \<Rightarrow> string \<Rightarrow> string option \<Rightarrow> outcome" where
  "analyze_repos e fs csv_path language_filter =
     (if \<not> isfile fs csv_path then (None, fs, [])
      else
        (let repo_paths = read_repos_from_csv e fs csv_path language_filter
         in if repo_paths = [] then (None, fs, [])
            else analyze_each e repo_paths fs []))"

text \<open>
  The command line: \<open>--repo\<close> and \<open>--csv\<close> are optional, \<open>--language\<close> has the default
  \<open>'Python'\<close>. \<open>--debug\<close> only switches console output on and is left out.
\<close>

record cli_args =
  arg_repo :: "string option"
  arg_csv :: "string option"
  arg_language :: string

definition main :: "env \<Rightarrow> filesystem \<Rightarrow> cli_args \<Rightarrow> outcome" where
  "main e fs a =
     (if given (arg_repo a) \<noteq> None \<and> given (arg_csv a) \<noteq> None then (None, fs, [])
      else
        (case makedirs e fs ''./results'' of
           Some err \<Rightarrow> (Some err, fs, [])
         | None \<Rightarrow>
            (let fs1 = fs\<lparr>dirs := insert ''./results'' (dirs fs)\<rparr>
             in case client_error e of
                  Some err \<Rightarrow> (Some err, fs1, [])
                | None \<Rightarrow>
                   (case given (arg_repo a) of
                      Some repo_path \<Rightarrow>
                        (case analyze_repo e fs1 repo_path (arg_language a) of
                           (result, evs) \<Rightarrow> (None, fs1, evs))
                    | None \<Rightarrow>
                       (case given (arg_csv a) of
                          Some csv_path \<Rightarrow>
                            analyze_repos e fs1 csv_path (Some (arg_language a))
                        | None \<Rightarrow> (None, fs1, []))))))"

section \<open>Notions the properties are stated with\<close>

text \<open>
  The qualified name of a decorator, as the specification resolves it: a call through its
  callee, an attribute access as base, dot, attribute, a bare identifier as itself, and
  anything else as the empty name.
\<close>

fun qualified_name :: "expr \<Rightarrow> string" where
  "qualified_name (Call f xs) = qualified_name f"
| "qualified_name (Attribute v a) = qualified_name v @ ''.'' @ a"
| "qualified_name (Name n) = n"
| "qualified_name e = ''''"

text \<open>
  A decorator in which no call is applied to the result of another call, on the path from
  the decorator down its callees and bases. A bare identifier, a dotted name, and a call
  of either, with any arguments, are of this kind.
\<close>

fun direct_calls :: "expr \<Rightarrow> bool" where
  "direct_calls (Call (Call g ys) xs) = False"
| "direct_calls (Call f xs) = direct_calls f"
| "direct_calls (Attribute v a) = direct_calls v"
| "direct_calls e = True"

text \<open>The function definitions of a tree, \<open>def\<close> and \<open>async def\<close> alike, in walking order.\<close>

fun as_function :: "node \<Rightarrow> (funcdef \<times> node list) list" where
  "as_function (FunctionDef f body) = [(f, body)]"
| "as_function (AsyncFunctionDef f body) = [(f, body)]"
| "as_function n = []"

definition function_defs :: "node \<Rightarrow> (funcdef \<times> node list) list" where
  "function_defs tree = concat (map as_function (walk [tree]))"

definition marked :: "funcdef \<Rightarrow> bool" where
  "marked f \<longleftrightarrow> (\<exists>d \<in> set (decorator_list f). qualified_name (dec_expr d) = ''mcp.tool'')"

text \<open>
  The lines numbered \<open>a\<close> through \<open>b\<close> of a text, the first line being line 1; and a
  function whose line numbers, and those of its decorators, are all there and at least 1,
  as the parser sets them.
\<close>

definition line_range :: "string list \<Rightarrow> int \<Rightarrow> int \<Rightarrow> string list" where
  "line_range src_lines a b =
     map (\<lambda>i. src_lines ! nat (i - 1))
       (filter (\<lambda>i. 1 \<le> i \<and> i \<le> int (length src_lines)) [a..b])"

fun line_span :: "string list \<Rightarrow> int \<Rightarrow> int option \<Rightarrow> string list" where
  "line_span src_lines a (Some b) = line_range src_lines a b"
| "line_span src_lines a None = []"

fun at_least_1 :: "int option \<Rightarrow> bool" where
  "at_least_1 (Some b) \<longleftrightarrow> 1 \<le> b"
| "at_least_1 None \<longleftrightarrow> False"

definition positive_lines :: "funcdef \<Rightarrow> bool" where
  "positive_lines f \<longleftrightarrow>
     1 \<le> lineno f \<and> at_least_1 (end_lineno f)
     \<and> (\<forall>d \<in> set (decorator_list f). 1 \<le> dec_lineno d \<and> at_least_1 (dec_end_lineno d))"

text \<open>
  The lines of a text as the parser numbers them: a line ends at \<open>\r\n\<close>, \<open>\n\<close> or \<open>\r\<close>
  and at nothing else; a form feed, for one, is white space inside a line.
\<close>

fun parser_lines_from :: "string \<Rightarrow> string \<Rightarrow> string list" where
  "parser_lines_from cur [] = (if cur = [] then [] else [cur])"
| "parser_lines_from cur [c] =
     (if c = CHR 0x0A \<or> c = CHR 0x0D then [cur] else [cur @ [c]])"
| "parser_lines_from cur (c # d # cs) =
     (if c = CHR 0x0D \<and> d = CHR 0x0A then cur # parser_lines_from [] cs
      else if c = CHR 0x0A \<or> c = CHR 0x0D then cur # parser_lines_from [] (d # cs)
      else parser_lines_from (cur @ [c]) (d # cs))"

definition parser_lines :: "string \<Rightarrow> string list" where
  "parser_lines s = parser_lines_from [] s"

text \<open>All the parameters of a function, in the order of the declaration.\<close>

definition all_parameters :: "arguments \<Rightarrow> py_arg list" where
  "all_parameters a =
     posonlyargs a @ args a @ (case vararg a of None \<Rightarrow> [] | Some v \<Rightarrow> [v])
     @ kwonlyargs a @ (case kwarg a of None \<Rightarrow> [] | Some k \<Rightarrow> [k])"

text \<open>
  A tool record: a dictionary with the three fields the prompt reads. The repository a
  log entry is for; for a report file, the repository whose report has that path.
\<close>

definition tool_record :: "pydict \<Rightarrow> bool" where
  "tool_record t \<longleftrightarrow>
     map_of t ''name'' \<noteq> None \<and> map_of t ''docstring'' \<noteq> None \<and> map_of t ''source_code'' \<noteq> None"

fun concerns :: "string \<Rightarrow> event \<Rightarrow> bool" where
  "concerns repo (Extracted r file_path) \<longleftrightarrow> r = repo"
| "concerns repo (ThreadPool r n) \<longleftrightarrow> r = repo"
| "concerns repo (Completion r i k prompt) \<longleftrightarrow> r = repo"
| "concerns repo (Sleep r i seconds) \<longleftrightarrow> r = repo"
| "concerns repo (Written p) \<longleftrightarrow> p = repo @ ''_tools.json''"

fun is_completion :: "event \<Rightarrow> bool" where
  "is_completion (Completion r i k prompt) = True"
| "is_completion ev = False"

text \<open>
  The outcome of one tool: the record with \<open>analysis\<close> set either to what the service
  answered to one of the at most \<open>max_retries\<close> requests (success), or to the message
  built from the error of the last request (failure).
\<close>

definition has_outcome :: "env \<Rightarrow> string \<Rightarrow> nat \<Rightarrow> pydict \<Rightarrow> pydict \<Rightarrow> bool" where
  "has_outcome e repo i t t' \<longleftrightarrow>
     (\<exists>p. build_prompt (format e) t = Inr p \<and>
        ((\<exists>k<max_retries. \<exists>a. llm e repo i k p = Inr a \<and> t' = setitem t ''analysis'' a)
         \<or> (\<exists>err. llm e repo i (max_retries - 1) p = Inl err
                \<and> t' = setitem t ''analysis''
                      (PStr (''Error during analysis after 3 attempts: '' @ err)))))"

text \<open>The record the worker of a tool returns (the tool itself if the worker raised).\<close>

definition worker_result :: "env \<Rightarrow> string \<Rightarrow> nat \<times> pydict \<Rightarrow> pydict" where
  "worker_result e repo it =
     (case fst (analyze_tool_with_llm e repo (fst it) (snd it)) of
        Inr t' \<Rightarrow> t'
      | Inl err \<Rightarrow> snd it)"

text \<open>A log entry of the analysis of a repository itself, not of writing its report.\<close>

fun tagged :: "string \<Rightarrow> event \<Rightarrow> bool" where
  "tagged repo (Written p) = False"
| "tagged repo ev = concerns repo ev"

text \<open>The durations of the sleeps of a log, in order.\<close>

fun sleep_time :: "event \<Rightarrow> real list" where
  "sleep_time (Sleep r i seconds) = [seconds]"
| "sleep_time ev = []"

definition sleeps :: "event list \<Rightarrow> real list" where
  "sleeps evs = concat (map sleep_time evs)"

section \<open>An example repository\<close>

text \<open>
  A file \<open>server.py\<close> of fourteen lines with four functions: \<open>a\<close> under the bare name
  \<open>@tool\<close>, \<open>b\<close> under \<open>@mcp.tool\<close>, with a keyword-only parameter, the coroutine \<open>c\<close>
  of a class under a call of \<open>mcp.tool\<close> that spans two lines, a comment line and
  \<open>@log\<close>, and \<open>d\<close> without a decorator.
\<close>

definition example_lines :: "string list" where
  "example_lines =
     [''@tool'',
      ''def a(x):'',
      ''    return x'',
      ''@mcp.tool'',
      ''def b(x: int, *, y: str) -> int:'',
      ''    return x'',
      ''class K:'',
      ''    @mcp.tool('',
      ''        name=X)'',
      ''    # logged'',
      ''    @log'',
      ''    async def c(self):'',
      ''        return 1'',
      ''def d(): pass'']"

definition example_source :: string where
  "example_source = join [CHR 0x0A] example_lines @ [CHR 0x0A]"

definition example_a :: funcdef where
  "example_a =
     \<lparr>name = ''a'',
      fargs = \<lparr>posonlyargs = [], args = [\<lparr>arg = ''x'', annotation = None\<rparr>],
               vararg = None, kwonlyargs = [], kwarg = None\<rparr>,
      decorator_list = [\<lparr>dec_expr = Name ''tool'', dec_lineno = 1, dec_end_lineno = Some 1\<rparr>],
      returns = None, lineno = 2, end_lineno = Some 3\<rparr>"

definition example_b :: funcdef where
  "example_b =
     \<lparr>name = ''b'',
      fargs = \<lparr>posonlyargs = [],
               args = [\<lparr>arg = ''x'', annotation = Some (Name ''int'')\<rparr>],
               vararg = None,
               kwonlyargs = [\<lparr>arg = ''y'', annotation = Some (Name ''str'')\<rparr>],
               kwarg = None\<rparr>,
      decorator_list =
        [\<lparr>dec_expr = Attribute (Name ''mcp'') ''tool'', dec_lineno = 4,
          dec_end_lineno = Some 4\<rparr>],
      returns = Some (Name ''int''), lineno = 5, end_lineno = Some 6\<rparr>"

definition example_c :: funcdef where
  "example_c =
     \<lparr>name = ''c'',
      fargs = \<lparr>posonlyargs = [], args = [\<lparr>arg = ''self'', annotation = None\<rparr>],
               vararg = None, kwonlyargs = [], kwarg = None\<rparr>,
      decorator_list =
        [\<lparr>dec_expr = Call (Attribute (Name ''mcp'') ''tool'') [Name ''X''], dec_lineno = 8,
          dec_end_lineno = Some 9\<rparr>,
         \<lparr>dec_expr = Name ''log'', dec_lineno = 11, dec_end_lineno = Some 11\<rparr>],
      returns = None, lineno = 12, end_lineno = Some 13\<rparr>"

definition example_d :: funcdef where
  "example_d =
     \<lparr>name = ''d'',
      fargs = \<lparr>posonlyargs = [], args = [], vararg = None, kwonlyargs = [], kwarg = None\<rparr>,
      decorator_list = [], returns = None, lineno = 14, end_lineno = Some 14\<rparr>"

definition example_tree :: node where
  "example_tree =
     Module [FunctionDef example_a [OtherNode []],
             FunctionDef example_b [OtherNode []],
             OtherNode [AsyncFunctionDef example_c [OtherNode []]],
             FunctionDef example_d [OtherNode []]]"

fun example_unparse :: "expr \<Rightarrow> string" where
  "example_unparse (Name n) = n"
| "example_unparse e = ''...''"

definition example_lib :: pylib where
  "example_lib = \<lparr>unparse = example_unparse, cleandoc = (\<lambda>s. s)\<rparr>"

text \<open>
  Three tool records, and a completion service that fails twice on the first before it
  answers, fails every time on the second, and answers the third at once, each answer
  being a JSON object.
\<close>

definition example_json :: string where
  "example_json =
     ''{'' @ [CHR 0x22] @ ''score'' @ [CHR 0x22] @ '': 0, '' @ [CHR 0x22] @ ''reason''
     @ [CHR 0x22] @ '': '' @ [CHR 0x22] @ ''runs a shell command'' @ [CHR 0x22] @ ''}''"

definition example_tool :: "string \<Rightarrow> pydict" where
  "example_tool n =
     [(''name'', PStr n),
      (''source_code'', PStr (''def '' @ n @ ''(): pass'')),
      (''docstring'', PStr ''''),
      (''signature'', PDict [(''parameters'', PDict []), (''return_type'', PStr '''')]),
      (''line_number'', PInt 1),
      (''file_path'', PStr ''server.py'')]"

fun example_format :: "pyval \<Rightarrow> string" where
  "example_format (PStr s) = s"
| "example_format v = ''?''"

definition example_llm :: "string \<Rightarrow> nat \<Rightarrow> nat \<Rightarrow> string \<Rightarrow> string + pyval" where
  "example_llm repo i k prompt =
     (if i = 0 then (if k < 2 then Inl ''timeout'' else Inr (PStr example_json))
      else if i = 1 then Inl ''rate limit''
      else Inr (PStr example_json))"

text \<open>
  A file system with the repository \<open>mcp_repos/u_r\<close>, which has no report yet, and the
  repository \<open>mcp_repos/u_done\<close>, which has one; a manifest that lists both as Go
  repositories.
\<close>

definition example_fs :: filesystem where
  "example_fs =
     \<lparr>files = [''repos.csv'' \<mapsto> ''username,repo_name,language'',
               ''mcp_repos/u_r/server.py'' \<mapsto> example_source,
               ''mcp_repos/u_done_tools.json'' \<mapsto> ''{}''],
      dirs = {''mcp_repos'', ''mcp_repos/u_r'', ''mcp_repos/u_done''}\<rparr>"

definition example_env :: env where
  "example_env =
     \<lparr>stdlib = example_lib,
      format = example_format,
      os_walk = (\<lambda>fs p. if p = ''mcp_repos/u_r''
                          then [(''mcp_repos/u_r'', [''server.py'', ''main.go''])] else []),
      relpath = (\<lambda>p start. drop (length start + 1) p),
      ast_parse = (\<lambda>s. if s = example_source then Inr example_tree
                          else Inl (Exception ''invalid syntax'')),
      csv_rows = (\<lambda>s. [[(''username'', PStr ''u''), (''repo_name'', PStr ''r''),
                          (''language'', PStr ''Go'')],
                         [(''username'', PStr ''u''), (''repo_name'', PStr ''done''),
                          (''language'', PStr ''Go'')]]),
      json_dumps = (\<lambda>v. ''{}''),
      llm = example_llm,
      random_bits = (\<lambda>repo i k. 2 ^ 52),
      completion_order = (\<lambda>repo. [1]),
      open_w = (\<lambda>fs p. None),
      makedirs = (\<lambda>fs p. None),
      client_error = None\<rparr>"

text \<open>
  The same file system once the report of \<open>mcp_repos/u_r\<close> is there too, and two command
  lines: a batch run and a run on the single repository, both with \<open>--language Go\<close>.
\<close>

definition example_fs_done :: filesystem where
  "example_fs_done =
     example_fs\<lparr>files := (files example_fs)(''mcp_repos/u_r_tools.json'' \<mapsto> ''{}'')\<rparr>"

definition example_batch_args :: cli_args where
  "example_batch_args =
     \<lparr>arg_repo = None, arg_csv = Some ''repos.csv'', arg_language = ''Go''\<rparr>"

definition example_repo_args :: cli_args where
  "example_repo_args =
     \<lparr>arg_repo = Some ''mcp_repos/u_r'', arg_csv = None, arg_language = ''Go''\<rparr>"

text \<open>
  A file of four lines whose first line, a comment, holds a form feed, with the syntax
  tree the parser gives for it: the decorator on line 2, the function on lines 3 and 4.
\<close>

definition form_feed_source :: string where
  "form_feed_source =
     ''# page'' @ [CHR 0x0C] @ ''break'' @ [CHR 0x0A]
     @ ''@mcp.tool()'' @ [CHR 0x0A]
     @ ''def f():'' @ [CHR 0x0A]
     @ ''    return 1'' @ [CHR 0x0A]"

definition form_feed_f :: funcdef where
  "form_feed_f =
     \<lparr>name = ''f'',
      fargs = \<lparr>posonlyargs = [], args = [], vararg = None, kwonlyargs = [], kwarg = None\<rparr>,
      decorator_list =
        [\<lparr>dec_expr = Call (Attribute (Name ''mcp'') ''tool'') [], dec_lineno = 2,
          dec_end_lineno = Some 2\<rparr>],
      returns = None, lineno = 3, end_lineno = Some 4\<rparr>"

definition form_feed_tree :: node where
  "form_feed_tree = Module [FunctionDef form_feed_f [OtherNode []]]"

section \<open>The extractor\<close>

subsection \<open>Which functions are recorded\<close>

lemma get_decorator_name_qualified:
  "direct_calls d \<Longrightarrow> get_decorator_name d = qualified_name d"
  by (induction d rule: get_decorator_name.induct) auto

lemma marker_decorator:
  "direct_calls d \<Longrightarrow> is_mcp_tool_decorator d \<longleftrightarrow> qualified_name d = ''mcp.tool''"
  by (simp add: is_mcp_tool_decorator_def get_decorator_name_qualified)

lemma scan_decorators_eq:
  "scan_decorators ds info acc =
     (if \<exists>d \<in> set ds. is_mcp_tool_decorator (dec_expr d) then acc @ [info] else acc)"
  by (induction ds) auto

lemma visit_eq:
  "visit lib ls acc n =
     acc @ map (\<lambda>(f, body). function_info lib ls f body)
             (filter (\<lambda>(f, body). \<exists>d \<in> set (decorator_list f). is_mcp_tool_decorator (dec_expr d))
                (as_function n))"
  by (cases n) (simp_all add: scan_decorators_eq)

lemma foldl_visit:
  "foldl (visit lib ls) acc ns =
     acc @ map (\<lambda>(f, body). function_info lib ls f body)
             (filter (\<lambda>(f, body). \<exists>d \<in> set (decorator_list f). is_mcp_tool_decorator (dec_expr d))
                (concat (map as_function ns)))"
proof (induction ns arbitrary: acc)
  case Nil
  then show ?case by simp
next
  case (Cons n ns)
  show ?case
    by (simp only: foldl_Cons Cons.IH) (simp add: visit_eq [of lib ls acc n])
qed

text \<open>
  The extractor returns one record for every function definition with a decorator whose
  name is the marker, in walking order.
\<close>

lemma extract_tool_functions_eq:
  "extract_tool_functions lib source_code tree =
     map (\<lambda>(f, body). function_info lib (splitlines source_code) f body)
       (filter (\<lambda>(f, body). \<exists>d \<in> set (decorator_list f). is_mcp_tool_decorator (dec_expr d))
          (function_defs tree))"
  unfolding extract_tool_functions_def function_defs_def
  by (simp add: foldl_visit del: walk.simps)

text \<open>
  Claim C2 (marker resolution equivalence). Take a file in which no decorator applies a
  call to the result of another call; bare identifiers, dotted names and calls of either
  are all of that kind. Then the functions recorded, \<open>def\<close> and \<open>async def\<close> alike, are
  exactly those with a decorator whose qualified name, resolved by shape, is
  \<open>mcp.tool\<close>. A call of a name or of an attribute access is the marker exactly when
  its callee is, whatever the arguments.
\<close>

theorem marker_resolution:
  assumes "\<forall>(f, body) \<in> set (function_defs tree).
             \<forall>d \<in> set (decorator_list f). direct_calls (dec_expr d)"
  shows "extract_tool_functions lib source_code tree =
           map (\<lambda>(f, body). function_info lib (splitlines source_code) f body)
             (filter (\<lambda>(f, body). marked f) (function_defs tree))
     \<and> is_mcp_tool_decorator (Call (Attribute v a) xs) = is_mcp_tool_decorator (Attribute v a)
     \<and> is_mcp_tool_decorator (Call (Name n) xs) = is_mcp_tool_decorator (Name n)"
proof -
  have "(\<exists>d \<in> set (decorator_list f). is_mcp_tool_decorator (dec_expr d)) \<longleftrightarrow> marked f"
    if "(f, body) \<in> set (function_defs tree)" for f body
  proof -
    from assms that have "\<forall>d \<in> set (decorator_list f). direct_calls (dec_expr d)"
      by blast
    then show ?thesis
      unfolding marked_def by (meson marker_decorator)
  qed
  then have "filter (\<lambda>(f, body). \<exists>d \<in> set (decorator_list f). is_mcp_tool_decorator (dec_expr d))
          (function_defs tree) = filter (\<lambda>(f, body). marked f) (function_defs tree)"
    by (intro filter_cong refl) auto
  then show ?thesis
    by (simp add: extract_tool_functions_eq is_mcp_tool_decorator_def)
qed

lemma splitlines_example: "splitlines example_source = example_lines"
  by (simp add: splitlines_def example_source_def example_lines_def is_linebreak_def)

lemma function_defs_example:
  "function_defs example_tree =
     [(example_a, [OtherNode []]), (example_b, [OtherNode []]), (example_d, [OtherNode []]),
      (example_c, [OtherNode []])]"
  by (simp add: function_defs_def example_tree_def)

text \<open>
  In the example file \<open>b\<close> (attribute access) and \<open>c\<close> (call, asynchronous) are recorded;
  \<open>a\<close>, under the bare name \<open>tool\<close>, whose qualified name is \<open>tool\<close>, and \<open>d\<close> are not.
\<close>

theorem marker_resolution_witness:
  "list_all (\<lambda>(f, body). list_all (\<lambda>d. direct_calls (dec_expr d)) (decorator_list f))
     (function_defs example_tree)
   \<and> map (\<lambda>t. map_of t ''name'')
        (extract_tool_functions example_lib example_source example_tree)
      = [Some (PStr ''b''), Some (PStr ''c'')]"
proof -
  have h: "\<forall>(f, body) \<in> set (function_defs example_tree).
      \<forall>d \<in> set (decorator_list f). direct_calls (dec_expr d)"
    by (simp add: function_defs_example example_a_def example_b_def example_c_def example_d_def)
  from h have l: "list_all (\<lambda>(f, body). list_all (\<lambda>d. direct_calls (dec_expr d)) (decorator_list f))
     (function_defs example_tree)"
    by (simp add: list_all_iff split_beta)
  from marker_resolution [OF h, of example_lib example_source] l show ?thesis
    by (simp add: function_defs_example marked_def function_info_def
          example_a_def example_b_def example_c_def example_d_def)
qed

subsection \<open>The source span\<close>

lemma filter_upto: "1 \<le> a \<Longrightarrow> filter (\<lambda>i. 1 \<le> i \<and> i \<le> n) [a..b] = [a..min b n]"
proof (induction a b rule: upto.induct)
  case (1 i j)
  show ?case
  proof (cases "i \<le> j")
    case True
    note ij = this
    show ?thesis
    proof (cases "i \<le> n")
      case True
      with ij 1 show ?thesis
        by (simp add: upto_rec1 [of i j] upto_rec1 [of i "min j n"])
    next
      case False
      with ij 1 show ?thesis
        by (simp add: upto_rec1 [of i j])
    qed
  next
    case False
    then show ?thesis by simp
  qed
qed

lemma map_nth_upto:
  assumes "1 \<le> a" "m \<le> int (length ls)"
  shows "map (\<lambda>i. ls ! nat (i - 1)) [a..m] = drop (nat (a - 1)) (take (nat m) ls)"
proof (rule nth_equalityI)
  show "length (map (\<lambda>i. ls ! nat (i - 1)) [a..m]) = length (drop (nat (a - 1)) (take (nat m) ls))"
    using assms by auto
next
  fix k assume "k < length (map (\<lambda>i. ls ! nat (i - 1)) [a..m])"
  then have k: "int k < m - a + 1" by auto
  then have "a + int k \<le> m" by simp
  with assms k show "map (\<lambda>i. ls ! nat (i - 1)) [a..m] ! k = drop (nat (a - 1)) (take (nat m) ls) ! k"
    by (simp add: nat_add_distrib nat_diff_distrib add.commute)
qed

text \<open>A slice from a line number on is the range of lines up to the other one.\<close>

lemma py_slice_line_range:
  assumes "1 \<le> a" "0 \<le> b"
  shows "py_slice ls (a - 1) (Some b) = line_range ls a b"
proof -
  let ?n = "int (length ls)"
  have "line_range ls a b = map (\<lambda>i. ls ! nat (i - 1)) [a..min b ?n]"
    using assms by (simp add: line_range_def filter_upto)
  also have "\<dots> = drop (nat (a - 1)) (take (nat (min b ?n)) ls)"
    using assms by (intro map_nth_upto) simp_all
  also have "\<dots> = py_slice ls (a - 1) (Some b)"
    using assms by (auto simp: py_slice_def Let_def min_def)
  finally show ?thesis by simp
qed

lemma foldl_append_concat:
  "foldl (\<lambda>acc d. acc @ g d) acc ds = acc @ concat (map g ds)"
  by (induction ds arbitrary: acc) simp_all

lemma py_slice_line_span:
  assumes "1 \<le> a" "at_least_1 b"
  shows "py_slice ls (a - 1) b = line_span ls a b"
proof (cases b)
  case None
  with assms show ?thesis by simp
next
  case (Some e)
  with assms py_slice_line_range [of a e ls] show ?thesis by simp
qed

lemma get_function_source_eq:
  assumes "positive_lines f"
  shows "get_function_source ls f =
     join [CHR 0x0A]
       (concat (map (\<lambda>d. line_span ls (dec_lineno d) (dec_end_lineno d)) (decorator_list f))
        @ line_span ls (lineno f) (end_lineno f))"
proof -
  have "py_slice ls (dec_lineno d - 1) (dec_end_lineno d)
      = line_span ls (dec_lineno d) (dec_end_lineno d)"
    if "d \<in> set (decorator_list f)" for d
    using assms that by (intro py_slice_line_span) (auto simp: positive_lines_def)
  then have decs: "map (\<lambda>d. py_slice ls (dec_lineno d - 1) (dec_end_lineno d)) (decorator_list f)
     = map (\<lambda>d. line_span ls (dec_lineno d) (dec_end_lineno d)) (decorator_list f)"
    by simp
  have body: "py_slice ls (lineno f - 1) (end_lineno f) = line_span ls (lineno f) (end_lineno f)"
    using assms by (intro py_slice_line_span) (auto simp: positive_lines_def)
  show ?thesis
    unfolding get_function_source_def Let_def foldl_append_concat decs body by simp
qed

text \<open>
  Over the lines that \<open>splitlines\<close> gives, and for line numbers that are there and at
  least 1, the \<open>source_code\<close> of a recorded function is the newline-join of the lines of
  each decorator's own range, in the order of the decorators, followed by the lines from
  the function's first line through its last; and \<open>line_number\<close> is the line of the
  function definition itself.
\<close>

lemma source_span_of_splitlines:
  assumes "(f, body) \<in> set (function_defs tree)"
    and "\<exists>d \<in> set (decorator_list f). is_mcp_tool_decorator (dec_expr d)"
    and "positive_lines f"
  shows "function_info lib (splitlines source_code) f body
           \<in> set (extract_tool_functions lib source_code tree)
     \<and> map_of (function_info lib (splitlines source_code) f body) ''source_code''
         = Some (PStr (join [CHR 0x0A]
             (concat (map (\<lambda>d. line_span (splitlines source_code) (dec_lineno d)
                               (dec_end_lineno d))
                        (decorator_list f))
              @ line_span (splitlines source_code) (lineno f) (end_lineno f))))
     \<and> map_of (function_info lib (splitlines source_code) f body) ''line_number''
         = Some (PInt (lineno f))"
proof (intro conjI)
  show "function_info lib (splitlines source_code) f body
           \<in> set (extract_tool_functions lib source_code tree)"
    using assms(1,2) by (force simp: extract_tool_functions_eq)
next
  show "map_of (function_info lib (splitlines source_code) f body) ''source_code''
         = Some (PStr (join [CHR 0x0A]
             (concat (map (\<lambda>d. line_span (splitlines source_code) (dec_lineno d)
                               (dec_end_lineno d))
                        (decorator_list f))
              @ line_span (splitlines source_code) (lineno f) (end_lineno f))))"
    by (simp add: function_info_def get_function_source_eq [OF assms(3)])
next
  show "map_of (function_info lib (splitlines source_code) f body) ''line_number''
         = Some (PInt (lineno f))"
    by (simp add: function_info_def)
qed

text \<open>
  For \<open>c\<close> of the example the span is lines 8, 9, 11, 12 and 13: the comment on line 10,
  between the two decorators, is not part of it; the start line is 12, not 8.
\<close>

lemma source_span_of_splitlines_example:
  "map_of (function_info example_lib (splitlines example_source) example_c [OtherNode []])
        ''source_code''
      = Some (PStr (join [CHR 0x0A]
          [''    @mcp.tool('', ''        name=X)'', ''    @log'', ''    async def c(self):'',
           ''        return 1'']))
   \<and> map_of (function_info example_lib (splitlines example_source) example_c [OtherNode []])
        ''line_number''
      = Some (PInt 12)"
proof -
  have 1: "(example_c, [OtherNode []]) \<in> set (function_defs example_tree)"
    by (simp add: function_defs_example)
  have 2: "\<exists>d \<in> set (decorator_list example_c). is_mcp_tool_decorator (dec_expr d)"
    by (simp add: example_c_def is_mcp_tool_decorator_def)
  have 3: "positive_lines example_c"
    by (simp add: example_c_def positive_lines_def)
  have r1: "line_range example_lines 8 9 = [''    @mcp.tool('', ''        name=X)'']"
    by (simp add: line_range_def example_lines_def upto.simps)
  have r2: "line_range example_lines 11 11 = [''    @log'']"
    by (simp add: line_range_def example_lines_def upto.simps)
  have r3: "line_range example_lines 12 13 = [''    async def c(self):'', ''        return 1'']"
    by (simp add: line_range_def example_lines_def upto.simps)
  from source_span_of_splitlines [OF 1 2 3, of example_lib example_source]
  show ?thesis
    by (simp add: splitlines_example example_c_def r1 r2 r3)
qed

text \<open>
  The line numbers are the parser's, and \<open>splitlines\<close> breaks a text at more characters
  than the parser does. The two agree on a text without any of those characters.
\<close>

lemma splitlines_from_parser_lines_from:
  "\<forall>c \<in> set s. is_linebreak c \<longrightarrow> c = CHR 0x0A \<or> c = CHR 0x0D \<Longrightarrow>
   splitlines_from cur s = parser_lines_from cur s"
  by (induction cur s rule: splitlines_from.induct) (auto simp: is_linebreak_def)

lemma splitlines_parser_lines:
  "\<forall>c \<in> set s. c \<notin> {CHR 0x0B, CHR 0x0C, CHR 0x1C, CHR 0x1D, CHR 0x1E, CHR 0x85} \<Longrightarrow>
   splitlines s = parser_lines s"
  unfolding splitlines_def parser_lines_def
  by (rule splitlines_from_parser_lines_from) (auto simp: is_linebreak_def)

lemma splitlines_form_feed:
  "splitlines form_feed_source
     = [''# page'', ''break'', ''@mcp.tool()'', ''def f():'', ''    return 1'']"
  by (simp add: splitlines_def form_feed_source_def is_linebreak_def)

lemma parser_lines_form_feed:
  "parser_lines form_feed_source
     = [''# page'' @ [CHR 0x0C] @ ''break'', ''@mcp.tool()'', ''def f():'', ''    return 1'']"
  by (simp add: parser_lines_def form_feed_source_def)

text \<open>
  Claim C5 (source span and start line) on a file with a form feed in its first line.
  The parser numbers the decorator's line 2 and the function's lines 3 and 4, and the
  claim's span is those three lines. \<open>splitlines\<close> breaks the first line in two, so the
  slices are one line early: the extracted span is the end of the comment, the
  decorator's line and the line of \<open>def\<close>, without the body of the function. The start
  line is 3, as claimed.
\<close>

theorem source_span_shifted_by_form_feed:
  "map (\<lambda>t. (map_of t ''source_code'', map_of t ''line_number''))
     (extract_tool_functions example_lib form_feed_source form_feed_tree)
     = [(Some (PStr (join [CHR 0x0A] [''break'', ''@mcp.tool()'', ''def f():''])),
         Some (PInt 3))]
   \<and> join [CHR 0x0A]
        (line_range (parser_lines form_feed_source) 2 2
         @ line_range (parser_lines form_feed_source) 3 4)
     = join [CHR 0x0A] [''@mcp.tool()'', ''def f():'', ''    return 1'']"
proof -
  have "function_defs form_feed_tree = [(form_feed_f, [OtherNode []])]"
    by (simp add: function_defs_def form_feed_tree_def)
  moreover have "\<exists>d \<in> set (decorator_list form_feed_f). is_mcp_tool_decorator (dec_expr d)"
    by (simp add: form_feed_f_def is_mcp_tool_decorator_def)
  moreover have "get_function_source (splitlines form_feed_source) form_feed_f
      = join [CHR 0x0A] [''break'', ''@mcp.tool()'', ''def f():'']"
    by (simp add: get_function_source_def splitlines_form_feed form_feed_f_def py_slice_def)
  moreover have "line_range (parser_lines form_feed_source) 2 2 = [''@mcp.tool()'']"
    by (simp add: parser_lines_form_feed line_range_def upto.simps)
  moreover have "line_range (parser_lines form_feed_source) 3 4 = [''def f():'', ''    return 1'']"
    by (simp add: parser_lines_form_feed line_range_def upto.simps)
  ultimately show ?thesis
    by (simp add: extract_tool_functions_eq function_info_def form_feed_f_def)
qed

subsection \<open>The signature\<close>

lemma setitem_fresh: "k \<notin> fst ` set d \<Longrightarrow> setitem d k v = d @ [(k, v)]"
  by (induction d) (auto simp: setitem_def)

lemma foldl_setitem_distinct:
  "distinct (map fst acc @ map arg ps) \<Longrightarrow>
   foldl (\<lambda>params a. setitem params (arg a) (PStr (g a))) acc ps
     = acc @ map (\<lambda>a. (arg a, PStr (g a))) ps"
proof (induction ps arbitrary: acc)
  case Nil
  then show ?case by simp
next
  case (Cons a ps)
  from Cons.prems have fresh: "arg a \<notin> fst ` set acc" by auto
  from Cons.prems have "distinct (map fst (acc @ [(arg a, PStr (g a))]) @ map arg ps)" by auto
  from Cons.IH [OF this] show ?case
    by (simp add: setitem_fresh [OF fresh])
qed

text \<open>
  The signature lists the parameters of \<open>node.args.args\<close>, in order, each with the text
  of its annotation or the empty string, and the text of the return annotation.
\<close>

lemma signature_of_ordinary_parameters:
  assumes "distinct (map arg (args (fargs f)))"
  shows "get_function_signature unp f =
     [(''parameters'',
         PDict (map (\<lambda>a. (arg a, PStr (param_type unp a))) (args (fargs f)))),
      (''return_type'', PStr (case returns f of None \<Rightarrow> [] | Some e \<Rightarrow> unp e))]"
  using assms foldl_setitem_distinct [of "[]" "args (fargs f)" "param_type unp"]
  by (simp add: get_function_signature_def Let_def)

text \<open>
  Claim C8 (signature extraction) on \<open>def b(x: int, *, y: str) -> int\<close>: the function
  has the parameters \<open>x\<close> and \<open>y\<close>, and the extracted signature lists \<open>x\<close> only. The
  keyword-only parameter is not in \<open>node.args.args\<close>, and neither are positional-only
  parameters, \<open>*args\<close> and \<open>**kwargs\<close>.
\<close>

theorem signature_omits_keyword_only:
  "get_function_signature example_unparse example_b
     = [(''parameters'', PDict [(''x'', PStr ''int'')]), (''return_type'', PStr ''int'')]
   \<and> map arg (all_parameters (fargs example_b)) = [''x'', ''y'']"
  by (simp add: get_function_signature_def example_b_def all_parameters_def param_type_def
        setitem_def)

section \<open>The analyzer\<close>

subsection \<open>One tool\<close>

lemma decimal_max_retries: "decimal max_retries = ''3''"
  by (simp add: max_retries_def)

lemma retry_loop_2:
  "retry_loop e repo i p t 2 evs =
     (case llm e repo i 2 p of
        Inr a \<Rightarrow> (setitem t ''analysis'' a, evs @ [Completion repo i 2 p])
      | Inl err \<Rightarrow>
          (setitem t ''analysis'' (PStr (''Error during analysis after 3 attempts: '' @ err)),
           evs @ [Completion repo i 2 p]))"
  by (subst retry_loop.simps) (simp add: max_retries_def split: sum.splits)

lemma retry_loop_1:
  "retry_loop e repo i p t (Suc 0) evs =
     (case llm e repo i (Suc 0) p of
        Inr a \<Rightarrow> (setitem t ''analysis'' a, evs @ [Completion repo i (Suc 0) p])
      | Inl err \<Rightarrow>
          retry_loop e repo i p t 2
            (evs @ [Completion repo i (Suc 0) p, Sleep repo i (float_add 4 (random_53 e repo i 2))]))"
  by (subst retry_loop.simps)
     (simp add: max_retries_def backoff_factor_def numeral_2_eq_2 [symmetric] split: sum.splits)

lemma retry_loop_0:
  "retry_loop e repo i p t 0 evs =
     (case llm e repo i 0 p of
        Inr a \<Rightarrow> (setitem t ''analysis'' a, evs @ [Completion repo i 0 p])
      | Inl err \<Rightarrow>
          retry_loop e repo i p t (Suc 0)
            (evs @ [Completion repo i 0 p, Sleep repo i (float_add 2 (random_53 e repo i (Suc 0)))]))"
  by (subst retry_loop.simps) (simp add: max_retries_def backoff_factor_def split: sum.splits)

text \<open>The four ways the worker of one tool can go.\<close>

lemma analyze_tool_with_llm_cases:
  assumes "build_prompt (format e) t = Inr p"
  shows "analyze_tool_with_llm e repo i t =
     (case llm e repo i 0 p of
        Inr a \<Rightarrow> (Inr (setitem t ''analysis'' a), [Completion repo i 0 p])
      | Inl err0 \<Rightarrow>
         (case llm e repo i 1 p of
            Inr a \<Rightarrow>
              (Inr (setitem t ''analysis'' a),
               [Completion repo i 0 p, Sleep repo i (float_add 2 (random_53 e repo i 1)),
                Completion repo i 1 p])
          | Inl err1 \<Rightarrow>
             (case llm e repo i 2 p of
                Inr a \<Rightarrow>
                  (Inr (setitem t ''analysis'' a),
                   [Completion repo i 0 p, Sleep repo i (float_add 2 (random_53 e repo i 1)),
                    Completion repo i 1 p, Sleep repo i (float_add 4 (random_53 e repo i 2)),
                    Completion repo i 2 p])
              | Inl err2 \<Rightarrow>
                  (Inr (setitem t ''analysis''
                          (PStr (''Error during analysis after 3 attempts: '' @ err2))),
                   [Completion repo i 0 p, Sleep repo i (float_add 2 (random_53 e repo i 1)),
                    Completion repo i 1 p, Sleep repo i (float_add 4 (random_53 e repo i 2)),
                    Completion repo i 2 p]))))"
  using assms
  by (simp add: analyze_tool_with_llm_def retry_loop_0 retry_loop_1 retry_loop_2
           split: sum.splits)

lemma build_prompt_tool_record:
  "tool_record t \<longleftrightarrow> (\<exists>p. build_prompt fmt t = Inr p)"
  by (auto simp: tool_record_def build_prompt_def getitem_def split: option.splits)

lemma build_prompt_KeyError:
  "\<not> tool_record t \<Longrightarrow> \<exists>k. analyze_tool_with_llm e repo i t = (Inl (KeyError k), [])"
  by (auto simp: tool_record_def analyze_tool_with_llm_def build_prompt_def getitem_def split: option.splits)

lemma worker_returns:
  assumes "tool_record t"
  shows "\<exists>t'. fst (analyze_tool_with_llm e repo i t) = Inr t'"
proof -
  from assms obtain p where "build_prompt (format e) t = Inr p"
    using build_prompt_tool_record by blast
  then show ?thesis
    by (simp add: analyze_tool_with_llm_cases split: sum.splits)
qed

lemma worker_outcome:
  assumes "tool_record t"
  shows "\<exists>t'. fst (analyze_tool_with_llm e repo i t) = Inr t' \<and> has_outcome e repo i t t'"
proof -
  from assms obtain p where p: "build_prompt (format e) t = Inr p"
    using build_prompt_tool_record by blast
  show ?thesis
  proof (cases "llm e repo i 0 p")
    case (Inr a)
    with p have "fst (analyze_tool_with_llm e repo i t) = Inr (setitem t ''analysis'' a)"
      by (simp add: analyze_tool_with_llm_cases)
    moreover have "has_outcome e repo i t (setitem t ''analysis'' a)"
      unfolding has_outcome_def max_retries_def using p Inr
      by (intro exI [of _ p] conjI disjI1 exI [of _ "0::nat"] exI [of _ a]) simp_all
    ultimately show ?thesis by blast
  next
    case e0: (Inl err0)
    show ?thesis
    proof (cases "llm e repo i 1 p")
      case (Inr a)
      with p e0 have "fst (analyze_tool_with_llm e repo i t) = Inr (setitem t ''analysis'' a)"
        by (simp add: analyze_tool_with_llm_cases)
      moreover have "has_outcome e repo i t (setitem t ''analysis'' a)"
        unfolding has_outcome_def max_retries_def using p Inr
        by (intro exI [of _ p] conjI disjI1 exI [of _ "1::nat"] exI [of _ a]) simp_all
      ultimately show ?thesis by blast
    next
      case e1: (Inl err1)
      show ?thesis
      proof (cases "llm e repo i 2 p")
        case (Inr a)
        with p e0 e1 have "fst (analyze_tool_with_llm e repo i t) = Inr (setitem t ''analysis'' a)"
          by (simp add: analyze_tool_with_llm_cases)
        moreover have "has_outcome e repo i t (setitem t ''analysis'' a)"
          unfolding has_outcome_def max_retries_def using p Inr
          by (intro exI [of _ p] conjI disjI1 exI [of _ "2::nat"] exI [of _ a]) simp_all
        ultimately show ?thesis by blast
      next
        case (Inl err2)
        with p e0 e1 have "fst (analyze_tool_with_llm e repo i t) =
            Inr (setitem t ''analysis'' (PStr (''Error during analysis after 3 attempts: '' @ err2)))"
          by (simp add: analyze_tool_with_llm_cases)
        moreover have "has_outcome e repo i t
            (setitem t ''analysis'' (PStr (''Error during analysis after 3 attempts: '' @ err2)))"
          unfolding has_outcome_def max_retries_def using p Inl
          by (intro exI [of _ p] conjI disjI2 exI [of _ err2]) simp_all
        ultimately show ?thesis by blast
      qed
    qed
  qed
qed

lemma setitem_map_of: "map_of (setitem d k v) = (map_of d)(k \<mapsto> v)"
  by (simp add: setitem_def update_conv')

lemma example_prompt:
  "build_prompt (format example_env) (example_tool n)
     = Inr (prompt_text n '''' (''def '' @ n @ ''(): pass''))"
  by (simp add: build_prompt_def getitem_def example_tool_def example_env_def)

lemma llm_example_env: "llm example_env = example_llm"
  by (simp add: example_env_def)

text \<open>
  The jitter is a value in \<open>[0, 1)\<close>, and the sleep is within half the distance of two
  doubles of the exact sum.
\<close>

lemma uniform_bounds: "0 \<le> uniform e repo i k \<and> uniform e repo i k < 1"
proof -
  have "random_53 e repo i k < 2 ^ 53"
    by (simp add: random_53_def)
  then have "real (random_53 e repo i k) < 2 ^ 53"
    by (metis of_nat_less_iff of_nat_numeral of_nat_power)
  then show ?thesis
    by (simp add: uniform_def)
qed

lemma round_half_even_error:
  assumes "0 < d"
  shows "\<bar>real (round_half_even n d) - real n / real d\<bar> \<le> 1 / 2"
proof -
  let ?q = "n div d" and ?r = "n mod d"
  have n: "real n = real ?q * real d + real ?r"
    by (metis div_mult_mod_eq of_nat_add of_nat_mult)
  have d: "0 < real d" using assms by simp
  have frac: "real n / real d = real ?q + real ?r / real d"
    using d by (simp add: n field_simps)
  have r: "real ?r < real d" using assms by simp
  consider "2 * ?r < d" | "d < 2 * ?r" | "2 * ?r = d" by linarith
  then show ?thesis
  proof cases
    case 1
    then have "2 * real ?r < real d"
      by (metis of_nat_less_iff of_nat_mult of_nat_numeral)
    then have "real ?r / real d < 1 / 2" using d by (simp add: field_simps)
    moreover have "0 \<le> real ?r / real d" using d by simp
    ultimately show ?thesis using 1 by (simp add: round_half_even_def Let_def frac)
  next
    case 2
    then have "real d < 2 * real ?r"
      by (metis of_nat_less_iff of_nat_mult of_nat_numeral)
    then have "1 / 2 < real ?r / real d" using d by (simp add: field_simps)
    moreover have "real ?r / real d < 1" using d r by simp
    ultimately show ?thesis using 2 by (simp add: round_half_even_def Let_def frac)
  next
    case 3
    then have "2 * real ?r = real d"
      by (metis of_nat_mult of_nat_numeral)
    then have "real ?r / real d = 1 / 2" using d by (simp add: field_simps)
    then show ?thesis using 3 by (simp add: round_half_even_def Let_def frac)
  qed
qed

lemma float_add_error:
  "\<bar>float_add m n - (real m + real n / 2 ^ 53)\<bar> \<le> 2 ^ ilog2 m / 2 ^ 53"
proof -
  let ?e = "ilog2 m"
  let ?x = "real (round_half_even n (2 ^ (?e + 1))) - real n / real ((2::nat) ^ (?e + 1))"
  let ?c = "(2::real) ^ ?e / 2 ^ 52"
  have eq: "float_add m n - (real m + real n / 2 ^ 53) = ?c * ?x"
    by (simp add: float_add_def field_simps)
  have x: "\<bar>?x\<bar> \<le> 1 / 2"
    by (rule round_half_even_error) simp
  have c: "0 \<le> ?c" by simp
  have "\<bar>?c * ?x\<bar> = ?c * \<bar>?x\<bar>"
    using c by (simp only: abs_mult abs_of_nonneg)
  also have "\<dots> \<le> ?c * (1 / 2)"
    using x c by (rule mult_left_mono)
  also have "\<dots> = 2 ^ ?e / 2 ^ 53"
    by simp
  finally show ?thesis
    by (simp only: eq)
qed

lemma ilog2_2_4: "ilog2 2 = 1" "ilog2 4 = 2"
  by (simp_all add: ilog2.simps)

text \<open>
  With the jitter one half the sums are exact; with the largest jitter there is, the sum
  with 2 rounds up to 3.
\<close>

lemma float_add_examples:
  "float_add 2 (2 ^ 52) = 5 / 2" "float_add 4 (2 ^ 52) = 9 / 2" "float_add 2 (2 ^ 53 - 1) = 3"
  by (simp_all add: float_add_def round_half_even_def ilog2_2_4)

text \<open>
  Claim C3 (retry and backoff schedule), with the message the code writes. For a tool
  record at most 3 requests are made. Before retry \<open>i\<close>, counted from 1, the worker
  sleeps \<open>2 ^ i\<close> seconds plus an independent uniform random jitter in \<open>[0, 1)\<close>: the value
  \<open>random.uniform(0, 1)\<close> returns for that draw, from random bits of its own, added to
  \<open>2 ^ i\<close> in double precision, which is within \<open>2 ^ i / 2 ^ 53\<close> of the exact sum. A
  service that fails on the first two requests and answers the third gives the answer as
  analysis after exactly two sleeps, with the base durations 2 and 4 seconds. When all
  three requests fail the analysis is \<open>Error during analysis after 3 attempts: \<close>
  followed by the last error, after the same two sleeps.
\<close>

theorem retry_schedule:
  assumes p: "build_prompt (format e) t = Inr p"
  shows "length (filter is_completion (snd (analyze_tool_with_llm e repo i t))) \<le> max_retries
     \<and> (\<forall>j < length (sleeps (snd (analyze_tool_with_llm e repo i t))).
           sleeps (snd (analyze_tool_with_llm e repo i t)) ! j
             = float_add (2 ^ (j + 1)) (random_53 e repo i (j + 1))
           \<and> uniform e repo i (j + 1) = real (random_53 e repo i (j + 1)) / 2 ^ 53
           \<and> 0 \<le> uniform e repo i (j + 1) \<and> uniform e repo i (j + 1) < 1
           \<and> \<bar>sleeps (snd (analyze_tool_with_llm e repo i t)) ! j
                - (2 ^ (j + 1) + uniform e repo i (j + 1))\<bar> \<le> 2 ^ (j + 1) / 2 ^ 53)
     \<and> ((\<exists>err0. llm e repo i 0 p = Inl err0) \<and> (\<exists>err1. llm e repo i 1 p = Inl err1)
          \<and> llm e repo i 2 p = Inr a
          \<longrightarrow> analyze_tool_with_llm e repo i t =
               (Inr (setitem t ''analysis'' a),
                [Completion repo i 0 p, Sleep repo i (float_add 2 (random_53 e repo i 1)),
                 Completion repo i 1 p, Sleep repo i (float_add 4 (random_53 e repo i 2)),
                 Completion repo i 2 p]))
     \<and> ((\<exists>err0. llm e repo i 0 p = Inl err0) \<and> (\<exists>err1. llm e repo i 1 p = Inl err1)
          \<and> llm e repo i 2 p = Inl err
          \<longrightarrow> analyze_tool_with_llm e repo i t =
               (Inr (setitem t ''analysis''
                       (PStr (''Error during analysis after 3 attempts: '' @ err))),
                [Completion repo i 0 p, Sleep repo i (float_add 2 (random_53 e repo i 1)),
                 Completion repo i 1 p, Sleep repo i (float_add 4 (random_53 e repo i 2)),
                 Completion repo i 2 p]))"
proof (intro conjI)
  show "length (filter is_completion (snd (analyze_tool_with_llm e repo i t))) \<le> max_retries"
    by (simp add: analyze_tool_with_llm_cases [OF p] max_retries_def split: sum.splits)
next
  let ?s = "sleeps (snd (analyze_tool_with_llm e repo i t))"
  have shape: "?s = [] \<or> ?s = [float_add 2 (random_53 e repo i 1)]
      \<or> ?s = [float_add 2 (random_53 e repo i 1), float_add 4 (random_53 e repo i 2)]"
    by (simp add: analyze_tool_with_llm_cases [OF p] sleeps_def split: sum.splits)
  have e1: "\<bar>float_add 2 (random_53 e repo i 1) - (2 + uniform e repo i 1)\<bar> \<le> 2 / 2 ^ 53"
    using float_add_error [of 2 "random_53 e repo i 1"]
    by (simp add: ilog2_2_4 uniform_def)
  have e2: "\<bar>float_add 4 (random_53 e repo i 2) - (4 + uniform e repo i 2)\<bar> \<le> 4 / 2 ^ 53"
    using float_add_error [of 4 "random_53 e repo i 2"]
    by (simp add: ilog2_2_4 uniform_def)
  have "?s ! j = float_add (2 ^ (j + 1)) (random_53 e repo i (j + 1))
           \<and> uniform e repo i (j + 1) = real (random_53 e repo i (j + 1)) / 2 ^ 53
           \<and> 0 \<le> uniform e repo i (j + 1) \<and> uniform e repo i (j + 1) < 1
           \<and> \<bar>?s ! j - (2 ^ (j + 1) + uniform e repo i (j + 1))\<bar> \<le> 2 ^ (j + 1) / 2 ^ 53"
    if "j < length ?s" for j
  proof -
    from that shape have "j = 0 \<and> ?s ! j = float_add 2 (random_53 e repo i 1)
        \<or> j = 1 \<and> ?s ! j = float_add 4 (random_53 e repo i 2)"
      by (auto simp: less_Suc_eq)
    then show ?thesis
    proof
      assume a: "j = 0 \<and> ?s ! j = float_add 2 (random_53 e repo i 1)"
      have j: "j = 0" by (rule conjunct1 [OF a])
      have sj: "?s ! j = float_add 2 (random_53 e repo i 1)" by (rule conjunct2 [OF a])
      from e1 uniform_bounds [of e repo i 1] show ?thesis
        unfolding sj by (simp add: j uniform_def)
    next
      assume a: "j = 1 \<and> ?s ! j = float_add 4 (random_53 e repo i 2)"
      have j: "j = 1" by (rule conjunct1 [OF a])
      have sj: "?s ! j = float_add 4 (random_53 e repo i 2)" by (rule conjunct2 [OF a])
      have two: "(1::nat) + 1 = 2" by simp
      from sj have sj': "?s ! Suc 0 = float_add 4 (random_53 e repo i 2)"
        unfolding j by simp
      from e2 uniform_bounds [of e repo i 2] show ?thesis
        unfolding j two by (simp add: sj' uniform_def)
    qed
  qed
  then show "\<forall>j < length ?s.
           ?s ! j = float_add (2 ^ (j + 1)) (random_53 e repo i (j + 1))
           \<and> uniform e repo i (j + 1) = real (random_53 e repo i (j + 1)) / 2 ^ 53
           \<and> 0 \<le> uniform e repo i (j + 1) \<and> uniform e repo i (j + 1) < 1
           \<and> \<bar>?s ! j - (2 ^ (j + 1) + uniform e repo i (j + 1))\<bar> \<le> 2 ^ (j + 1) / 2 ^ 53"
    by blast
next
  show "(\<exists>err0. llm e repo i 0 p = Inl err0) \<and> (\<exists>err1. llm e repo i 1 p = Inl err1)
          \<and> llm e repo i 2 p = Inr a
          \<longrightarrow> analyze_tool_with_llm e repo i t =
               (Inr (setitem t ''analysis'' a),
                [Completion repo i 0 p, Sleep repo i (float_add 2 (random_53 e repo i 1)),
                 Completion repo i 1 p, Sleep repo i (float_add 4 (random_53 e repo i 2)),
                 Completion repo i 2 p])"
    by (auto simp: analyze_tool_with_llm_cases [OF p])
next
  show "(\<exists>err0. llm e repo i 0 p = Inl err0) \<and> (\<exists>err1. llm e repo i 1 p = Inl err1)
          \<and> llm e repo i 2 p = Inl err
          \<longrightarrow> analyze_tool_with_llm e repo i t =
               (Inr (setitem t ''analysis''
                       (PStr (''Error during analysis after 3 attempts: '' @ err))),
                [Completion repo i 0 p, Sleep repo i (float_add 2 (random_53 e repo i 1)),
                 Completion repo i 1 p, Sleep repo i (float_add 4 (random_53 e repo i 2)),
                 Completion repo i 2 p])"
    by (auto simp: analyze_tool_with_llm_cases [OF p])
qed

text \<open>
  In the example the first tool is answered at the third request, and every jitter is
  one half: the sleeps are 2.5 and 4.5 seconds.
\<close>

theorem retry_schedule_witness:
  "build_prompt (format example_env) (example_tool ''f'')
     = Inr (prompt_text ''f'' '''' ''def f(): pass'')
   \<and> uniform example_env ''repo'' 0 1 = 1 / 2
   \<and> uniform example_env ''repo'' 0 2 = 1 / 2
   \<and> analyze_tool_with_llm example_env ''repo'' 0 (example_tool ''f'')
      = (Inr (setitem (example_tool ''f'') ''analysis'' (PStr example_json)),
         [Completion ''repo'' 0 0 (prompt_text ''f'' '''' ''def f(): pass''),
          Sleep ''repo'' 0 (5 / 2),
          Completion ''repo'' 0 1 (prompt_text ''f'' '''' ''def f(): pass''),
          Sleep ''repo'' 0 (9 / 2),
          Completion ''repo'' 0 2 (prompt_text ''f'' '''' ''def f(): pass'')])"
proof -
  have p: "build_prompt (format example_env) (example_tool ''f'')
     = Inr (prompt_text ''f'' '''' ''def f(): pass'')"
    using example_prompt [of "''f''"] by simp
  have r: "random_53 example_env ''repo'' 0 k = 2 ^ 52" for k
    by (simp add: random_53_def example_env_def)
  have u: "uniform example_env ''repo'' 0 k = 1 / 2" for k
    by (simp add: uniform_def r)
  have fa: "float_add 2 4503599627370496 = 5 / 2" "float_add 4 4503599627370496 = 9 / 2"
    using float_add_examples by simp_all
  from retry_schedule [OF p, of "''repo''" 0 "PStr example_json"] p show ?thesis
    by (simp add: llm_example_env example_llm_def u r fa)
qed

text \<open>
  As the claim words it, the message after three failures would be \<open>exhausted retries: \<close>
  followed by the last error. With a service that always fails with \<open>rate limit\<close> the
  analysis is another text.
\<close>

theorem exhausted_message_counterexample:
  "fst (analyze_tool_with_llm example_env ''repo'' 1 (example_tool ''g''))
     = Inr (example_tool ''g''
            @ [(''analysis'', PStr ''Error during analysis after 3 attempts: rate limit'')])
   \<and> fst (analyze_tool_with_llm example_env ''repo'' 1 (example_tool ''g''))
     \<noteq> Inr (example_tool ''g'' @ [(''analysis'', PStr (''exhausted retries: '' @ ''rate limit''))])"
proof -
  have "fst (analyze_tool_with_llm example_env ''repo'' 1 (example_tool ''g''))
     = Inr (setitem (example_tool ''g'') ''analysis''
              (PStr ''Error during analysis after 3 attempts: rate limit''))"
    by (simp add: analyze_tool_with_llm_cases [OF example_prompt] llm_example_env example_llm_def)
  then show ?thesis
    by (simp add: setitem_def example_tool_def)
qed

text \<open>
  Claim C6 (structure of a success), as the code has it. When the request number \<open>k\<close> is
  the first that the service answers, the record returned is the tool with \<open>analysis\<close>
  set to the answer as it is, and no other field added or changed, whether or not the
  answer is JSON: no score and no reason are derived. That request is the last entry of
  the log, so an answer is never followed by a retry.
\<close>

theorem response_kept_as_raw_text:
  assumes p: "build_prompt (format e) t = Inr p"
    and k: "k < max_retries"
    and failed: "\<forall>j < k. \<exists>err. llm e repo i j p = Inl err"
    and response: "llm e repo i k p = Inr a"
  shows "fst (analyze_tool_with_llm e repo i t) = Inr (setitem t ''analysis'' a)
     \<and> map_of (setitem t ''analysis'' a) = (map_of t)(''analysis'' \<mapsto> a)
     \<and> last (snd (analyze_tool_with_llm e repo i t)) = Completion repo i k p
     \<and> length (filter is_completion (snd (analyze_tool_with_llm e repo i t))) = k + 1"
proof -
  from k have "k = 0 \<or> k = 1 \<or> k = 2"
    unfolding max_retries_def by arith
  then consider "k = 0" | "k = 1" | "k = 2"
    by blast
  then show ?thesis
  proof cases
    case 1
    with response show ?thesis
      by (simp add: analyze_tool_with_llm_cases [OF p] setitem_map_of)
  next
    case 2
    with failed obtain err0 where "llm e repo i 0 p = Inl err0" by auto
    with 2 response show ?thesis
      by (simp add: analyze_tool_with_llm_cases [OF p] setitem_map_of)
  next
    case 3
    from failed 3 have "\<exists>err. llm e repo i 0 p = Inl err" and "\<exists>err. llm e repo i 1 p = Inl err"
      by simp_all
    then obtain err0 err1 where "llm e repo i 0 p = Inl err0" "llm e repo i 1 p = Inl err1"
      by blast
    with 3 response show ?thesis
      by (simp add: analyze_tool_with_llm_cases [OF p] setitem_map_of)
  qed
qed

theorem response_kept_as_raw_text_witness:
  "build_prompt (format example_env) (example_tool ''f'')
     = Inr (prompt_text ''f'' '''' ''def f(): pass'')
   \<and> 2 < max_retries
   \<and> llm example_env ''repo'' 0 0 (prompt_text ''f'' '''' ''def f(): pass'') = Inl ''timeout''
   \<and> llm example_env ''repo'' 0 1 (prompt_text ''f'' '''' ''def f(): pass'') = Inl ''timeout''
   \<and> llm example_env ''repo'' 0 2 (prompt_text ''f'' '''' ''def f(): pass'') = Inr (PStr example_json)
   \<and> fst (analyze_tool_with_llm example_env ''repo'' 0 (example_tool ''f''))
      = Inr (example_tool ''f'' @ [(''analysis'', PStr example_json)])
   \<and> length (filter is_completion (snd (analyze_tool_with_llm example_env ''repo'' 0 (example_tool ''f'')))) = 3"
proof -
  have p: "build_prompt (format example_env) (example_tool ''f'')
     = Inr (prompt_text ''f'' '''' ''def f(): pass'')"
    using example_prompt [of "''f''"] by simp
  have k: "2 < max_retries" by (simp add: max_retries_def)
  have f: "\<forall>j < 2. \<exists>err. llm example_env ''repo'' 0 j (prompt_text ''f'' '''' ''def f(): pass'') = Inl err"
    by (simp add: llm_example_env example_llm_def)
  have r: "llm example_env ''repo'' 0 2 (prompt_text ''f'' '''' ''def f(): pass'') = Inr (PStr example_json)"
    by (simp add: llm_example_env example_llm_def)
  have s: "setitem (example_tool ''f'') ''analysis'' v = example_tool ''f'' @ [(''analysis'', v)]" for v
    by (simp add: setitem_def example_tool_def)
  have f0: "llm example_env ''repo'' 0 0 (prompt_text ''f'' '''' ''def f(): pass'') = Inl ''timeout''"
    and f1: "llm example_env ''repo'' 0 1 (prompt_text ''f'' '''' ''def f(): pass'') = Inl ''timeout''"
    by (simp_all add: llm_example_env example_llm_def)
  from response_kept_as_raw_text [OF p k f r] p k f0 f1 r show ?thesis
    by (simp add: s)
qed

text \<open>
  As the claim words it, a score and a reason would be derived from an answer that is a
  JSON object. The third example tool is answered at once with such an object; the record
  returned has the seven fields below, the answer under \<open>analysis\<close>, and nothing else.
\<close>

theorem derived_fields_counterexample:
  "fst (analyze_tool_with_llm example_env ''repo'' 2 (example_tool ''h''))
     = Inr (example_tool ''h'' @ [(''analysis'', PStr example_json)])
   \<and> map fst (example_tool ''h'' @ [(''analysis'', PStr example_json)])
     = [''name'', ''source_code'', ''docstring'', ''signature'', ''line_number'', ''file_path'',
        ''analysis'']"
proof -
  have "fst (analyze_tool_with_llm example_env ''repo'' 2 (example_tool ''h''))
     = Inr (setitem (example_tool ''h'') ''analysis'' (PStr example_json))"
    by (simp add: analyze_tool_with_llm_cases [OF example_prompt] llm_example_env example_llm_def)
  then show ?thesis
    by (simp add: setitem_def example_tool_def)
qed

subsection \<open>All tools of a repository\<close>

lemma as_completed_mset: "mset (as_completed order xs) = mset xs"
proof (induction order xs rule: as_completed.induct)
  case (3 c order x xs)
  let ?p = "x # xs"
  let ?k = "c mod length ?p"
  have k: "?k < length ?p" by simp
  have "mset ?p = mset (take ?k ?p @ ?p ! ?k # drop (Suc ?k) ?p)"
    using k by (simp only: id_take_nth_drop [symmetric])
  then have "mset ?p = add_mset (?p ! ?k) (mset (take ?k ?p @ drop (Suc ?k) ?p))"
    by simp
  with 3 show ?case by (simp add: Let_def)
qed simp_all

lemma as_completed_length: "length (as_completed order xs) = length xs"
  using as_completed_mset [of order xs] by (metis size_mset)

lemma as_completed_set: "set (as_completed order xs) = set xs"
  using as_completed_mset [of order xs] by (metis set_mset_mset)

lemma as_completed_Cons:
  "as_completed (c # order) (x # xs) =
     (x # xs) ! (c mod length (x # xs))
     # as_completed order (take (c mod length (x # xs)) (x # xs)
                           @ drop (Suc (c mod length (x # xs))) (x # xs))"
  by (simp add: Let_def)

lemma as_completed_map: "as_completed order (map f xs) = map f (as_completed order xs)"
proof (induction order xs rule: as_completed.induct)
  case (3 c order x xs)
  let ?p = "x # xs"
  let ?k = "c mod length ?p"
  have k: "?k < length ?p" by simp
  have "as_completed (c # order) (map f ?p) =
      map f ?p ! ?k # as_completed order (take ?k (map f ?p) @ drop (Suc ?k) (map f ?p))"
    using as_completed_Cons [of c order "f x" "map f xs"] by simp
  also have "map f ?p ! ?k = f (?p ! ?k)"
    using k by (rule nth_map)
  also have "take ?k (map f ?p) @ drop (Suc ?k) (map f ?p) = map f (take ?k ?p @ drop (Suc ?k) ?p)"
    by (simp only: take_map drop_map map_append)
  also have "as_completed order (map f (take ?k ?p @ drop (Suc ?k) ?p))
      = map f (as_completed order (take ?k ?p @ drop (Suc ?k) ?p))"
    using 3 by simp
  finally show ?case
    by (simp only: as_completed_Cons list.map)
qed simp_all

lemma foldl_collect_Inr: "foldl collect acc (map Inr ts) = acc @ ts"
  by (induction ts arbitrary: acc) (simp_all add: collect_def)

lemma analyze_tools_records:
  assumes "\<forall>t \<in> set all_tools. tool_record t"
  shows "fst (analyze_tools e repo all_tools) =
     as_completed (completion_order e repo) (map (worker_result e repo) (enumerate 0 all_tools))"
proof -
  let ?W = "\<lambda>(i, tool). analyze_tool_with_llm e repo i tool"
  let ?xs = "enumerate 0 all_tools"
  have "fst (?W it) = Inr (worker_result e repo it)" if "it \<in> set ?xs" for it
  proof -
    from that have "fst it < length all_tools" and "all_tools ! fst it = snd it"
      by (simp_all add: in_set_enumerate_eq)
    then have "snd it \<in> set all_tools"
      using nth_mem [of "fst it" all_tools] by simp
    with assms have "tool_record (snd it)" by blast
    from worker_returns [OF this, of e repo "fst it"] show ?thesis
      by (auto simp: worker_result_def split_beta)
  qed
  then have "map fst (map ?W ?xs) = map Inr (map (worker_result e repo) ?xs)"
    by simp
  then have "map fst (as_completed (completion_order e repo) (map ?W ?xs))
      = map Inr (as_completed (completion_order e repo) (map (worker_result e repo) ?xs))"
    by (simp only: as_completed_map [symmetric])
  then show ?thesis
    by (simp add: analyze_tools_def Let_def foldl_collect_Inr del: map_map)
qed

text \<open>
  Claim C1 (no drop). For every list of tool records, empty or not, and every completion
  order, the analysis returns as many records as it was given: the records with their
  outcomes, one for each input record, in some order, each outcome a success or a
  failure. The service is a function here: every request returns or raises.
\<close>

theorem no_drop:
  assumes "\<forall>t \<in> set all_tools. tool_record t"
  shows "length (fst (analyze_tools e repo all_tools)) = length all_tools
     \<and> (\<exists>results. length results = length all_tools
           \<and> (\<forall>i < length all_tools. has_outcome e repo i (all_tools ! i) (results ! i))
           \<and> mset (fst (analyze_tools e repo all_tools)) = mset results)"
proof -
  let ?results = "map (worker_result e repo) (enumerate 0 all_tools)"
  have out: "fst (analyze_tools e repo all_tools) = as_completed (completion_order e repo) ?results"
    using assms by (rule analyze_tools_records)
  have "has_outcome e repo i (all_tools ! i) (?results ! i)" if "i < length all_tools" for i
  proof -
    from that assms have "tool_record (all_tools ! i)" by simp
    from worker_outcome [OF this, of e repo i] that show ?thesis
      by (auto simp: worker_result_def nth_enumerate_eq)
  qed
  then have "length ?results = length all_tools
      \<and> (\<forall>i < length all_tools. has_outcome e repo i (all_tools ! i) (?results ! i))
      \<and> mset (fst (analyze_tools e repo all_tools)) = mset ?results"
    by (simp add: out as_completed_mset)
  moreover have "length (fst (analyze_tools e repo all_tools)) = length all_tools"
    by (simp add: out as_completed_length)
  ultimately show ?thesis by blast
qed

theorem no_drop_witness:
  "tool_record (example_tool ''f'') \<and> tool_record (example_tool ''g'')
   \<and> tool_record (example_tool ''h'')
   \<and> length (fst (analyze_tools example_env ''repo''
                    [example_tool ''f'', example_tool ''g'', example_tool ''h''])) = 3"
proof -
  have h: "\<forall>t \<in> set [example_tool ''f'', example_tool ''g'', example_tool ''h'']. tool_record t"
    by (simp add: tool_record_def example_tool_def)
  from no_drop [OF h, of example_env "''repo''"] h show ?thesis
    by simp
qed

text \<open>
  Every record the extractor builds is a tool record, with or without its file path, so
  the report of a repository counts every tool extracted from its files.
\<close>

lemma function_info_tool_record: "tool_record (function_info lib ls f body)"
  by (simp add: tool_record_def function_info_def)

lemma setitem_tool_record: "tool_record t \<Longrightarrow> tool_record (setitem t k v)"
  by (simp add: tool_record_def setitem_map_of)

lemma extract_file_tool_records:
  assumes "\<forall>t \<in> set all_tools. tool_record t"
  shows "\<forall>t \<in> set (extract_file e fs repo_path all_tools file_path). tool_record t"
proof (cases "extract_tools e fs file_path")
  case (Inl err)
  with assms show ?thesis by (simp add: extract_file_def)
next
  case (Inr tools)
  then have "\<forall>t \<in> set tools. tool_record t"
    by (auto simp: extract_tools_def extract_tool_functions_eq function_info_tool_record
             split: option.splits sum.splits)
  with assms Inr show ?thesis
    by (auto simp: extract_file_def setitem_tool_record)
qed

lemma extracted_tools_are_records:
  "\<forall>t \<in> set (foldl (extract_file e fs repo_path) [] code_files). tool_record t"
proof -
  have "\<forall>t \<in> set (foldl (extract_file e fs repo_path) acc code_files). tool_record t"
    if "\<forall>t \<in> set acc. tool_record t" for acc
    using that
  proof (induction code_files arbitrary: acc)
    case Nil
    then show ?case by simp
  next
    case (Cons file_path rest)
    from Cons.IH [OF extract_file_tool_records [OF Cons.prems]] show ?case by simp
  qed
  from this [of "[]"] show ?thesis by simp
qed

lemma analyze_repo_counts_every_tool:
  "map_of (fst (analyze_repo e fs repo_path language)) ''tools_count''
     = Some (PInt (int (length (foldl (extract_file e fs repo_path) []
                                  (get_code_files e fs repo_path language)))))"
  by (simp add: analyze_repo_def Let_def split_beta
        analyze_tools_records [OF extracted_tools_are_records] as_completed_length)

text \<open>
  The number of workers of the pool is fixed from the number of tools: never more than 10,
  never more than one above the number of tools, never 0.
\<close>

lemma worker_count_bounds:
  "worker_count all_tools = min 10 (length all_tools + 1) \<and> 0 < worker_count all_tools"
  by (simp add: worker_count_def)

section \<open>The batch\<close>

lemma tagged_other: "tagged r ev \<Longrightarrow> r \<noteq> rp \<Longrightarrow> \<not> concerns rp ev"
  by (cases ev) auto

lemma worker_events:
  "ev \<in> set (snd (analyze_tool_with_llm e repo i t)) \<Longrightarrow> tagged repo ev"
proof (cases "tool_record t")
  case True
  then obtain p where "build_prompt (format e) t = Inr p"
    using build_prompt_tool_record by blast
  then show "ev \<in> set (snd (analyze_tool_with_llm e repo i t)) \<Longrightarrow> tagged repo ev"
    by (auto simp: analyze_tool_with_llm_cases split: sum.splits)
next
  case False
  from build_prompt_KeyError [OF this, of e repo i]
  show "ev \<in> set (snd (analyze_tool_with_llm e repo i t)) \<Longrightarrow> tagged repo ev"
    by auto
qed

lemma analyze_tools_events:
  assumes "ev \<in> set (snd (analyze_tools e repo all_tools))"
  shows "tagged repo ev"
proof -
  from assms consider "ev = ThreadPool repo (worker_count all_tools)"
    | i t where "ev \<in> set (snd (analyze_tool_with_llm e repo i t))"
    by (auto simp: analyze_tools_def Let_def as_completed_set)
  then show ?thesis
    by cases (auto dest: worker_events)
qed

text \<open>The log of a repository's analysis has entries of that repository only, and no write.\<close>

lemma analyze_repo_events:
  assumes "ev \<in> set (snd (analyze_repo e fs repo language))"
  shows "tagged repo ev"
  using assms
  by (auto simp: analyze_repo_def Let_def split_beta dest: analyze_tools_events)

lemma analyze_each_skips:
  assumes "path_exists fs (rp @ ''_tools.json'')" and "\<forall>ev \<in> set evs. \<not> concerns rp ev"
  shows "files (fst (snd (analyze_each e rps fs evs))) (rp @ ''_tools.json'')
           = files fs (rp @ ''_tools.json'')
     \<and> (\<forall>ev \<in> set (snd (snd (analyze_each e rps fs evs))). \<not> concerns rp ev)"
  using assms
proof (induction rps arbitrary: fs evs)
  case Nil
  then show ?case by simp
next
  case (Cons r rest)
  show ?case
  proof (cases "path_exists fs (r @ ''_tools.json'')")
    case True
    with Cons.IH [OF Cons.prems] show ?thesis by simp
  next
    case False
    with Cons.prems(1) have neq: "r \<noteq> rp" by auto
    obtain result evs' where run: "analyze_repo e fs r ''Python'' = (result, evs')"
      by (cases "analyze_repo e fs r ''Python''")
    have evs': "\<forall>ev \<in> set evs'. \<not> concerns rp ev"
    proof
      fix ev assume "ev \<in> set evs'"
      then have "ev \<in> set (snd (analyze_repo e fs r ''Python''))" by (simp add: run)
      then have "tagged r ev" by (rule analyze_repo_events)
      then show "\<not> concerns rp ev" using neq by (rule tagged_other)
    qed
    show ?thesis
    proof (cases "open_w e fs (r @ ''_tools.json'')")
      case (Some err)
      with False run Cons.prems evs' show ?thesis by (auto simp: Let_def)
    next
      case None
      let ?fs = "fs\<lparr>files := (files fs)(r @ ''_tools.json'' \<mapsto> json_dumps e (PDict result))\<rparr>"
      let ?evs = "evs @ evs' @ [Written (r @ ''_tools.json'')]"
      have 1: "path_exists ?fs (rp @ ''_tools.json'')"
        using Cons.prems(1) by (auto simp: path_exists_def)
      have 2: "\<forall>ev \<in> set ?evs. \<not> concerns rp ev"
        using Cons.prems(2) evs' neq by auto
      have 3: "files ?fs (rp @ ''_tools.json'') = files fs (rp @ ''_tools.json'')"
        using neq by simp
      from Cons.IH [OF 1 2] 3 False run None show ?thesis
        by (simp add: Let_def)
    qed
  qed
qed

lemma analyze_each_all_done:
  "\<forall>r \<in> set rps. path_exists fs (r @ ''_tools.json'') \<Longrightarrow> analyze_each e rps fs evs = (None, fs, evs)"
  by (induction rps) simp_all

lemma analyze_each_log_grows:
  "set evs \<subseteq> set (snd (snd (analyze_each e rps fs evs)))"
proof (induction rps arbitrary: fs evs)
  case Nil
  show ?case by simp
next
  case (Cons r rps)
  show ?case
  proof (cases "path_exists fs (r @ ''_tools.json'')")
    case True
    with Cons show ?thesis by simp
  next
    case False
    show ?thesis
    proof (cases "open_w e fs (r @ ''_tools.json'')")
      case (Some err)
      with False show ?thesis by (simp add: Let_def split_beta)
    next
      case None
      let ?fs = "fs\<lparr>files := (files fs)(r @ ''_tools.json''
                   \<mapsto> json_dumps e (PDict (fst (analyze_repo e fs r ''Python''))))\<rparr>"
      let ?evs = "evs @ snd (analyze_repo e fs r ''Python'') @ [Written (r @ ''_tools.json'')]"
      from Cons [of ?evs ?fs] have "set evs \<subseteq> set (snd (snd (analyze_each e rps ?fs ?evs)))"
        by auto
      with False None show ?thesis by (simp add: Let_def split_beta)
    qed
  qed
qed

lemma example_env_sel:
  "os_walk example_env fs p
     = (if p = ''mcp_repos/u_r'' then [(''mcp_repos/u_r'', [''server.py'', ''main.go''])] else [])"
  "json_dumps example_env v = ''{}''"
  "open_w example_env fs p = None"
  "makedirs example_env fs p = None"
  "client_error example_env = None"
  by (simp_all add: example_env_def)

lemma example_rows:
  assumes "files fs ''repos.csv'' \<noteq> None" and "dirs fs \<supseteq> dirs example_fs"
  shows "read_repos_from_csv example_env fs ''repos.csv'' lf
     = (if filtered_out lf [(''username'', PStr ''u''), (''repo_name'', PStr ''r''), (''language'', PStr ''Go'')]
        then [] else [''mcp_repos/u_r'', ''mcp_repos/u_done''])"
  using assms
  by (auto simp: read_repos_from_csv_def example_fs_def example_env_def read_row_def
        filtered_out_def given_def isdir_def path_join_def endswith_def suffix_to_prefix Let_def
      split: option.splits)

lemma example_names:
  "\<not> skipped_name ''server.py''" "\<not> skipped_name ''main.go''"
  "endswith ''server.py'' ''.py''" "\<not> endswith ''main.go'' ''.py''"
  "path_join ''mcp_repos/u_r'' ''server.py'' = ''mcp_repos/u_r/server.py''"
  by (code_simp, code_simp, code_simp, code_simp, code_simp)

lemma example_code_files:
  "get_code_files example_env fs ''mcp_repos/u_r'' ''Python'' = [''mcp_repos/u_r/server.py'']"
  by (simp add: get_code_files_def example_env_sel extension_of_def example_names)

text \<open>
  Claim C7 (resumability). If the report of a repository exists when the batch starts,
  then after the batch, whatever the manifest, the report holds what it held, and the log
  has no entry for that repository: no file of it was extracted, no completion was
  requested for it, no report was written for it. If all selected repositories have their
  report, the batch changes nothing and its log is empty.
\<close>

theorem resumable_batch:
  assumes "path_exists fs (repo_path @ ''_tools.json'')"
  shows "files (fst (snd (analyze_repos e fs csv_path language_filter))) (repo_path @ ''_tools.json'')
           = files fs (repo_path @ ''_tools.json'')
     \<and> (\<forall>ev \<in> set (snd (snd (analyze_repos e fs csv_path language_filter))).
           \<not> concerns repo_path ev)
     \<and> ((\<forall>r \<in> set (read_repos_from_csv e fs csv_path language_filter).
            path_exists fs (r @ ''_tools.json''))
          \<longrightarrow> analyze_repos e fs csv_path language_filter = (None, fs, []))"
proof -
  have "analyze_repos e fs csv_path language_filter = (None, fs, [])
      \<or> analyze_repos e fs csv_path language_filter
          = analyze_each e (read_repos_from_csv e fs csv_path language_filter) fs []"
    by (simp add: analyze_repos_def Let_def)
  then show ?thesis
    using analyze_each_skips [OF assms, of "[]" e "read_repos_from_csv e fs csv_path language_filter"]
      analyze_each_all_done [of "read_repos_from_csv e fs csv_path language_filter" fs e "[]"]
    by auto
qed

theorem resumable_batch_witness:
  "path_exists example_fs (''mcp_repos/u_done'' @ ''_tools.json'')
   \<and> files (fst (snd (analyze_repos example_env example_fs ''repos.csv'' (Some ''Go''))))
        ''mcp_repos/u_done_tools.json'' = Some ''{}''
   \<and> list_all (\<lambda>r. path_exists example_fs_done (r @ ''_tools.json''))
        (read_repos_from_csv example_env example_fs_done ''repos.csv'' (Some ''Go''))
   \<and> analyze_repos example_env example_fs_done ''repos.csv'' (Some ''Go'')
      = (None, example_fs_done, [])"
proof -
  have 1: "path_exists example_fs (''mcp_repos/u_done'' @ ''_tools.json'')"
    by (simp add: path_exists_def example_fs_def)
  have 2: "path_exists example_fs_done (''mcp_repos/u_done'' @ ''_tools.json'')"
    by (simp add: path_exists_def example_fs_def example_fs_done_def)
  have rows: "read_repos_from_csv example_env example_fs_done ''repos.csv'' (Some ''Go'')
      = [''mcp_repos/u_r'', ''mcp_repos/u_done'']"
    by (subst example_rows)
       (simp_all add: example_fs_done_def example_fs_def filtered_out_def given_def)
  have 3: "\<forall>r \<in> set (read_repos_from_csv example_env example_fs_done ''repos.csv'' (Some ''Go'')).
         path_exists example_fs_done (r @ ''_tools.json'')"
    unfolding rows by (simp add: path_exists_def example_fs_done_def example_fs_def)
  from resumable_batch [OF 1, of example_env "''repos.csv''" "Some ''Go''"]
    resumable_batch [OF 2, of example_env "''repos.csv''" "Some ''Go''"] 1 3
  show ?thesis
    by (simp add: example_fs_def list_all_iff)
qed

lemma suffix_path_join: "endswith file ext \<Longrightarrow> endswith (path_join rootdir file) ext"
proof -
  assume "endswith file ext"
  then have "suffix ext (xs @ file)" for xs
    by (simp add: endswith_def suffix_appendI)
  from this [of "[]"] this [of rootdir] this [of "rootdir @ ''/''"]
  show ?thesis
    by (simp add: endswith_def path_join_def)
qed

lemma files_in_endswith:
  "\<forall>p \<in> set code_files. endswith p ext \<Longrightarrow> \<forall>p \<in> set (files_in ext rootdir fnames code_files). endswith p ext"
proof (induction fnames arbitrary: code_files)
  case Nil
  then show ?case by simp
next
  case (Cons fname rest)
  show ?case
  proof (cases "\<not> skipped_name fname \<and> endswith fname ext")
    case True
    then have "\<forall>p \<in> set (code_files @ [path_join rootdir fname]). endswith p ext"
      using Cons.prems by (simp add: suffix_path_join)
    from Cons.IH [OF this] True show ?thesis by simp
  next
    case False
    with Cons.IH [OF Cons.prems] show ?thesis by auto
  qed
qed

lemma get_code_files_endswith:
  "p \<in> set (get_code_files e fs repo language) \<Longrightarrow> endswith p (extension_of language)"
proof -
  have "\<forall>p \<in> set (foldl (\<lambda>code_files (rootdir, fnames). files_in ext rootdir fnames code_files) acc ws). endswith p ext"
    if "\<forall>p \<in> set acc. endswith p ext" for ext acc and ws :: "(string \<times> string list) list"
    using that
  proof (induction ws arbitrary: acc)
    case Nil
    then show ?case by simp
  next
    case (Cons w ws)
    obtain rootdir fnames where w: "w = (rootdir, fnames)" by (cases w)
    from Cons.prems have "\<forall>p \<in> set (files_in ext rootdir fnames acc). endswith p ext"
      by (rule files_in_endswith)
    from Cons.IH [OF this] show ?case by (simp add: w)
  qed
  from this [of "[]" "extension_of language" "os_walk e fs repo"]
  show "p \<in> set (get_code_files e fs repo language) \<Longrightarrow> endswith p (extension_of language)"
    by (simp add: get_code_files_def Let_def)
qed

lemma analyze_repo_extracted:
  assumes "Extracted r f \<in> set (snd (analyze_repo e fs repo language))"
  shows "f \<in> set (get_code_files e fs repo language)"
proof -
  have "Extracted r f \<notin> set (snd (analyze_tools e repo ts))" for ts
  proof
    assume "Extracted r f \<in> set (snd (analyze_tools e repo ts))"
    then consider "Extracted r f = ThreadPool repo (worker_count ts)"
      | i t where "Extracted r f \<in> set (snd (analyze_tool_with_llm e repo i t))"
      by (auto simp: analyze_tools_def Let_def as_completed_set)
    then show False
    proof cases
      case 1
      then show False by simp
    next
      case 2
      show False
      proof (cases "tool_record t")
        case True
        then obtain p where "build_prompt (format e) t = Inr p"
          using build_prompt_tool_record by blast
        with 2 show False
          by (auto simp: analyze_tool_with_llm_cases split: sum.splits)
      next
        case False
        from build_prompt_KeyError [OF this, of e repo i] 2 show False by auto
      qed
    qed
  qed
  with assms show ?thesis
    by (auto simp: analyze_repo_def Let_def split_beta)
qed

lemma analyze_each_extracted:
  assumes "\<forall>r f. Extracted r f \<in> set evs \<longrightarrow> endswith f ''.py''"
  shows "\<forall>r f. Extracted r f \<in> set (snd (snd (analyze_each e rps fs evs))) \<longrightarrow> endswith f ''.py''"
  using assms
proof (induction rps arbitrary: fs evs)
  case Nil
  then show ?case by simp
next
  case (Cons rp rest)
  show ?case
  proof (cases "path_exists fs (rp @ ''_tools.json'')")
    case True
    with Cons.IH [OF Cons.prems] show ?thesis by simp
  next
    case False
    obtain result evs' where run: "analyze_repo e fs rp ''Python'' = (result, evs')"
      by (cases "analyze_repo e fs rp ''Python''")
    have evs': "\<forall>r f. Extracted r f \<in> set evs' \<longrightarrow> endswith f ''.py''"
    proof (intro allI impI)
      fix r f assume "Extracted r f \<in> set evs'"
      then have "Extracted r f \<in> set (snd (analyze_repo e fs rp ''Python''))" by (simp add: run)
      then have "f \<in> set (get_code_files e fs rp ''Python'')" by (rule analyze_repo_extracted)
      then have "endswith f (extension_of ''Python'')" by (rule get_code_files_endswith)
      then show "endswith f ''.py''" by (simp add: extension_of_def)
    qed
    show ?thesis
    proof (cases "open_w e fs (rp @ ''_tools.json'')")
      case (Some err)
      with False run Cons.prems evs' show ?thesis by (auto simp: Let_def)
    next
      case None
      let ?fs = "fs\<lparr>files := (files fs)(rp @ ''_tools.json'' \<mapsto> json_dumps e (PDict result))\<rparr>"
      let ?evs = "evs @ evs' @ [Written (rp @ ''_tools.json'')]"
      have "\<forall>r f. Extracted r f \<in> set ?evs \<longrightarrow> endswith f ''.py''"
        using Cons.prems evs' by auto
      from Cons.IH [OF this, of ?fs] False run None show ?thesis
        by (simp add: Let_def)
    qed
  qed
qed

lemma analyze_repos_extracted:
  "Extracted r f \<in> set (snd (snd (analyze_repos e fs csv_path language_filter))) \<Longrightarrow> endswith f ''.py''"
  using analyze_each_extracted [of "[]" e "read_repos_from_csv e fs csv_path language_filter" fs]
  by (auto simp: analyze_repos_def Let_def split: if_splits)

lemma read_row_cases:
  "read_row e fs None acc row = acc \<and> read_row e fs lf acc' row = acc'
   \<or> (\<exists>p. read_row e fs None acc row = acc @ [p]
          \<and> (read_row e fs lf acc' row = acc' \<or> read_row e fs lf acc' row = acc' @ [p]))"
  by (auto simp: read_row_def filtered_out_def given_def Let_def split: option.splits)

lemma read_rows_subseq:
  "subseq acc' acc \<Longrightarrow>
   subseq (foldl (read_row e fs lf) acc' rows) (foldl (read_row e fs None) acc rows)"
proof (induction rows arbitrary: acc acc')
  case Nil
  then show ?case by simp
next
  case (Cons row rows)
  from read_row_cases [of e fs acc row lf acc'] Cons.prems
  have "subseq (read_row e fs lf acc' row) (read_row e fs None acc row)"
    by (auto simp: subseq_append')
  from Cons.IH [OF this] show ?case by simp
qed

text \<open>
  Claim C9 (implicit). In a run without \<open>--repo\<close>, whatever \<open>--language\<close> is, every file
  handed to the extractor ends in \<open>.py\<close>. The language filter decides the batch only
  through the repositories it selects: two filters that select the same repositories give
  the same batch, and the repositories selected under a filter are among those selected
  without one, in the same order.
\<close>

theorem language_selects_rows_only:
  "(given (arg_repo a) = None \<longrightarrow>
      (\<forall>r f. Extracted r f \<in> set (snd (snd (main e fs a))) \<longrightarrow> endswith f ''.py''))
   \<and> (read_repos_from_csv e fs csv_path language_filter = read_repos_from_csv e fs csv_path other
        \<longrightarrow> analyze_repos e fs csv_path language_filter = analyze_repos e fs csv_path other)
   \<and> subseq (read_repos_from_csv e fs csv_path language_filter)
        (read_repos_from_csv e fs csv_path None)"
proof (intro conjI impI allI)
  fix r f
  assume "given (arg_repo a) = None" and "Extracted r f \<in> set (snd (snd (main e fs a)))"
  then show "endswith f ''.py''"
    by (auto simp: main_def Let_def split: if_splits option.splits dest: analyze_repos_extracted)
next
  assume "read_repos_from_csv e fs csv_path language_filter = read_repos_from_csv e fs csv_path other"
  then show "analyze_repos e fs csv_path language_filter = analyze_repos e fs csv_path other"
    by (simp add: analyze_repos_def)
next
  show "subseq (read_repos_from_csv e fs csv_path language_filter)
        (read_repos_from_csv e fs csv_path None)"
    by (simp add: read_repos_from_csv_def read_rows_subseq split: option.splits)
qed

theorem language_selects_rows_only_witness:
  "given (arg_repo example_batch_args) = None
   \<and> Extracted ''mcp_repos/u_r'' ''mcp_repos/u_r/server.py''
        \<in> set (snd (snd (main example_env example_fs example_batch_args)))
   \<and> endswith ''mcp_repos/u_r/server.py'' ''.py''
   \<and> read_repos_from_csv example_env example_fs ''repos.csv'' (Some ''Go'')
      = read_repos_from_csv example_env example_fs ''repos.csv'' None
   \<and> analyze_repos example_env example_fs ''repos.csv'' (Some ''Go'')
      = analyze_repos example_env example_fs ''repos.csv'' None"
proof -
  let ?fs1 = "example_fs\<lparr>dirs := insert ''./results'' (dirs example_fs)\<rparr>"
  have 1: "given (arg_repo example_batch_args) = None"
    by (simp add: example_batch_args_def given_def)
  have rows1: "read_repos_from_csv example_env ?fs1 ''repos.csv'' (Some ''Go'')
      = [''mcp_repos/u_r'', ''mcp_repos/u_done'']"
    by (subst example_rows) (auto simp: example_fs_def filtered_out_def given_def)
  have rows: "read_repos_from_csv example_env example_fs ''repos.csv'' lf
      = [''mcp_repos/u_r'', ''mcp_repos/u_done'']" if "lf = Some ''Go'' \<or> lf = None" for lf
    using that by (subst example_rows) (auto simp: example_fs_def filtered_out_def given_def)
  have main: "main example_env example_fs example_batch_args
      = analyze_each example_env [''mcp_repos/u_r'', ''mcp_repos/u_done''] ?fs1 []"
  proof -
    have "isfile ?fs1 ''repos.csv''"
      by (simp add: isfile_def example_fs_def)
    then have "analyze_repos example_env ?fs1 ''repos.csv'' (Some ''Go'')
        = analyze_each example_env [''mcp_repos/u_r'', ''mcp_repos/u_done''] ?fs1 []"
      by (simp add: analyze_repos_def rows1)
    then show ?thesis
      by (simp add: main_def example_batch_args_def given_def example_env_sel)
  qed
  have 2: "Extracted ''mcp_repos/u_r'' ''mcp_repos/u_r/server.py''
        \<in> set (snd (snd (main example_env example_fs example_batch_args)))"
  proof -
    have "\<not> path_exists ?fs1 (''mcp_repos/u_r'' @ ''_tools.json'')"
      by (simp add: path_exists_def example_fs_def)
    moreover have "Extracted ''mcp_repos/u_r'' ''mcp_repos/u_r/server.py''
        \<in> set (snd (analyze_repo example_env ?fs1 ''mcp_repos/u_r'' ''Python''))"
      by (simp add: analyze_repo_def Let_def split_beta example_code_files)
    moreover note analyze_each_log_grows
      [of "snd (analyze_repo example_env ?fs1 ''mcp_repos/u_r'' ''Python'')
           @ [Written ''mcp_repos/u_r_tools.json'']"]
    ultimately show ?thesis
      unfolding main
      by (simp add: Let_def split_beta example_env_sel)
  qed
  have 3: "read_repos_from_csv example_env example_fs ''repos.csv'' (Some ''Go'')
      = read_repos_from_csv example_env example_fs ''repos.csv'' None"
    by (simp add: rows)
  from language_selects_rows_only [of example_batch_args example_env example_fs
      "''repos.csv''" "Some ''Go''" None] 1 2 3
  show ?thesis by blast
qed

text \<open>
  Claim C10 (implicit). A run with \<open>--repo\<close> leaves every file as it was, and its log has
  no write: the report is computed and dropped.
\<close>

theorem single_repository_mode_writes_nothing:
  assumes "given (arg_repo a) \<noteq> None"
  shows "files (fst (snd (main e fs a))) = files fs
     \<and> (\<forall>p. Written p \<notin> set (snd (snd (main e fs a))))"
proof -
  from assms obtain repo_path where r: "given (arg_repo a) = Some repo_path" by auto
  have "Written p \<notin> set (snd (analyze_repo e fs' repo_path language))" for p fs' language
    using analyze_repo_events [of "Written p" e fs' repo_path language] by auto
  with r show ?thesis
    by (auto simp: main_def Let_def split_beta split: option.splits)
qed

theorem single_repository_mode_writes_nothing_witness:
  "given (arg_repo example_repo_args) \<noteq> None
   \<and> files (fst (snd (main example_env example_fs example_repo_args))) = files example_fs"
proof -
  have h: "given (arg_repo example_repo_args) \<noteq> None"
    by (simp add: example_repo_args_def given_def)
  from single_repository_mode_writes_nothing [OF h, of example_env example_fs] h
  show ?thesis by simp
qed

text \<open>The batch does write: a repository without report gets one, if the file can be opened.\<close>

lemma batch_writes_report:
  assumes "\<not> path_exists fs (repo_path @ ''_tools.json'')"
    and "open_w e fs (repo_path @ ''_tools.json'') = None"
  shows "files (fst (snd (analyze_each e [repo_path] fs [])))  (repo_path @ ''_tools.json'')
     = Some (json_dumps e (PDict (fst (analyze_repo e fs repo_path ''Python''))))"
  using assms by (simp add: Let_def split_beta)

end
